theory Spec2Isabelle
  imports Main "HOL-Library.Word"
begin

section \<open>Type inference: the lattice (type_infer.h, type_infer.c)\<close>

text \<open>
  The enum \<open>InferredTypeKind\<close> and the struct \<open>InferredType\<close> of type_infer.h. The
  field \<open>element_type\<close> is a pointer to another \<open>InferredType\<close> that may be NULL; it is
  an \<open>option\<close> here.
\<close>

datatype InferredTypeKind =
    INFER_UNKNOWN
  | INFER_I32
  | INFER_I64
  | INFER_F64
  | INFER_BOOL
  | INFER_STRING
  | INFER_NULL
  | INFER_ARRAY
  | INFER_OBJECT
  | INFER_FUNCTION
  | INFER_NUMERIC
  | INFER_INTEGER

datatype InferredType =
  InferredType (kind: InferredTypeKind) (element_type: "InferredType option")

definition infer_unknown :: InferredType where
  "infer_unknown = InferredType INFER_UNKNOWN None"

definition infer_i32 :: InferredType where
  "infer_i32 = InferredType INFER_I32 None"

definition infer_i64 :: InferredType where
  "infer_i64 = InferredType INFER_I64 None"

definition infer_f64 :: InferredType where
  "infer_f64 = InferredType INFER_F64 None"

definition infer_bool :: InferredType where
  "infer_bool = InferredType INFER_BOOL None"

definition infer_string :: InferredType where
  "infer_string = InferredType INFER_STRING None"

definition infer_null :: InferredType where
  "infer_null = InferredType INFER_NULL None"

definition infer_numeric :: InferredType where
  "infer_numeric = InferredType INFER_NUMERIC None"

definition infer_integer :: InferredType where
  "infer_integer = InferredType INFER_INTEGER None"

definition infer_is_known :: "InferredType \<Rightarrow> bool" where
  "infer_is_known t = (kind t \<noteq> INFER_UNKNOWN)"

definition infer_is_i32 :: "InferredType \<Rightarrow> bool" where
  "infer_is_i32 t = (kind t = INFER_I32)"

definition infer_is_i64 :: "InferredType \<Rightarrow> bool" where
  "infer_is_i64 t = (kind t = INFER_I64)"

definition infer_is_f64 :: "InferredType \<Rightarrow> bool" where
  "infer_is_f64 t = (kind t = INFER_F64)"

definition infer_is_integer :: "InferredType \<Rightarrow> bool" where
  "infer_is_integer t =
     (kind t = INFER_I32 \<or> kind t = INFER_I64 \<or> kind t = INFER_INTEGER)"

definition infer_is_numeric :: "InferredType \<Rightarrow> bool" where
  "infer_is_numeric t =
     (kind t = INFER_I32 \<or> kind t = INFER_I64 \<or> kind t = INFER_F64 \<or>
      kind t = INFER_NUMERIC \<or> kind t = INFER_INTEGER)"

text \<open>
  \<open>infer_meet\<close>, statement by statement. The two inner tests of the integer branch
  (both I32, both I64) are kept although the first test of the function has already
  returned when the kinds are equal.
\<close>

definition infer_meet :: "InferredType \<Rightarrow> InferredType \<Rightarrow> InferredType" where
  "infer_meet a b =
     (if kind a = kind b then a
      else if kind a = INFER_UNKNOWN then a
      else if kind b = INFER_UNKNOWN then b
      else if infer_is_integer a \<and> infer_is_integer b then
        (if kind a = INFER_I32 \<and> kind b = INFER_I32 then infer_i32
         else if kind a = INFER_I64 \<and> kind b = INFER_I64 then infer_i64
         else infer_integer)
      else if infer_is_numeric a \<and> infer_is_numeric b then infer_numeric
      else infer_unknown)"

section \<open>Type inference: the syntax tree it walks\<close>

text \<open>
  Modelled from the spec: the header ast.h, which declares \<open>TypeKind\<close>, \<open>Type\<close>,
  \<open>BinaryOp\<close>, \<open>UnaryOp\<close>, \<open>Expr\<close> and \<open>Stmt\<close>, is not among the sources. The
  kinds are those of section 3.1 of the specification, the operators and node variants
  those of section 3.4; the enumerator names and the fields are the ones type_infer.c
  and ast.c use. A \<open>Type\<close> carries its kind (\<open>type_new\<close> sets nothing else).
\<close>

datatype TypeKind =
    TYPE_I8 | TYPE_I16 | TYPE_I32 | TYPE_I64
  | TYPE_U8 | TYPE_U16 | TYPE_U32 | TYPE_U64
  | TYPE_F32 | TYPE_F64
  | TYPE_BOOL | TYPE_STRING
  | TYPE_ARRAY | TYPE_OBJECT | TYPE_FUNCTION | TYPE_PTR | TYPE_VOID | TYPE_ANY

datatype Type = Type (type_kind: TypeKind)

datatype BinaryOp =
    OP_ADD | OP_SUB | OP_MUL | OP_DIV | OP_MOD
  | OP_EQUAL | OP_NOT_EQUAL | OP_LESS | OP_LESS_EQUAL | OP_GREATER | OP_GREATER_EQUAL
  | OP_AND | OP_OR
  | OP_BIT_AND | OP_BIT_OR | OP_BIT_XOR | OP_BIT_LSHIFT | OP_BIT_RSHIFT

datatype UnaryOp = UNARY_NEGATE | UNARY_NOT | UNARY_BIT_NOT

text \<open>
  Modelled from the spec: the node variants of section 3.4 (the declarations of \<open>Expr\<close>
  and \<open>Stmt\<close> are in ast.h), with the fields that type_infer.c reads.
  A child pointer that the inferer tests for NULL before use (the initialiser of a
  declaration, the else branch, the three optional parts of a for loop, the value of a
  return, the callee of a call) is an \<open>option\<close>; every other child is a node.
  \<open>EXPR_NUMBER\<close> carries \<open>int_value\<close> and \<open>is_float\<close>; the field \<open>float_value\<close>
  is a double that no function modelled here reads. The C type of \<open>int_value\<close> is
  declared in ast.h; the inferer compares it with \<open>long long\<close> constants, so the value
  compared is the integer the field holds, whatever its width, and it is an \<open>int\<close> here.
\<close>

datatype Expr =
    EXPR_NUMBER int bool
  | EXPR_BOOL bool
  | EXPR_STRING string
  | EXPR_STRING_INTERPOLATION "string list" "Expr list"
  | EXPR_NULL
  | EXPR_RUNE nat
  | EXPR_IDENT string
  | EXPR_BINARY BinaryOp Expr Expr
  | EXPR_UNARY UnaryOp Expr
  | EXPR_CALL "Expr option" "Expr list"
  | EXPR_ASSIGN string Expr
  | EXPR_GET_PROPERTY Expr string
  | EXPR_INDEX Expr Expr
  | EXPR_INDEX_ASSIGN Expr Expr Expr
  | EXPR_ARRAY_LITERAL "Expr list"
  | EXPR_OBJECT_LITERAL "string list" "Expr list"
  | EXPR_FUNCTION "string list" "Type option list" "Type option" Stmt
  | EXPR_TERNARY Expr Expr Expr
  | EXPR_NULL_COALESCE Expr Expr
  | EXPR_PREFIX_INC Expr
  | EXPR_PREFIX_DEC Expr
  | EXPR_POSTFIX_INC Expr
  | EXPR_POSTFIX_DEC Expr
  | EXPR_AWAIT Expr
and Stmt =
    STMT_LET string "Type option" "Expr option"
  | STMT_CONST string "Type option" "Expr option"
  | STMT_EXPR Expr
  | STMT_IF Expr Stmt "Stmt option"
  | STMT_WHILE Expr Stmt
  | STMT_FOR "Stmt option" "Expr option" "Expr option" Stmt
  | STMT_BLOCK "Stmt list"
  | STMT_RETURN "Expr option"
  | STMT_BREAK
  | STMT_CONTINUE

text \<open>
  \<open>expr_number_int\<close> of ast.c: its parameter is a C \<open>int\<close>, a 32-bit word read as
  two's complement, stored in \<open>int_value\<close>; \<open>is_float\<close> is cleared.
\<close>

definition expr_number_int :: "32 word \<Rightarrow> Expr" where
  "expr_number_int v = EXPR_NUMBER (sint v) False"

section \<open>Type inference: environments and the registry of return types\<close>

text \<open>
  \<open>TypeBinding\<close> is a cell of a singly linked list (\<open>next\<close> is the tail of the list
  here), \<open>TypeEnv\<close> a scope with its list of bindings and the pointer to the enclosing
  scope, \<open>FuncReturnType\<close> a cell of the registry. \<open>TypeInferContext\<close> holds the
  pointer to the current scope, the registry and the flag \<open>changed\<close>. The inferer
  mutates the context in place; the functions below take it and return it updated.
\<close>

datatype TypeBinding = TypeBinding (tb_name: string) (tb_type: InferredType)

datatype TypeEnv = TypeEnv (bindings: "TypeBinding list") (parent: "TypeEnv option")

datatype FuncReturnType = FuncReturnType (fr_name: string) (return_type: InferredType)

record TypeInferContext =
  current_env :: "TypeEnv option"
  func_returns :: "FuncReturnType list"
  changed :: int

definition type_infer_new :: TypeInferContext where
  "type_infer_new = \<lparr>current_env = Some (TypeEnv [] None), func_returns = [], changed = 0\<rparr>"

definition type_env_push :: "TypeInferContext \<Rightarrow> TypeInferContext" where
  "type_env_push ctx = ctx\<lparr>current_env := Some (TypeEnv [] (current_env ctx))\<rparr>"

text \<open>
  \<open>type_env_pop\<close> and \<open>type_env_bind\<close> dereference \<open>ctx->current_env\<close> without a
  test. With no current scope the C behaviour is undefined; the model returns the
  context unchanged there, and no theorem below is about that case.
\<close>

definition type_env_pop :: "TypeInferContext \<Rightarrow> TypeInferContext" where
  "type_env_pop ctx =
     (case current_env ctx of
        None \<Rightarrow> ctx
      | Some old \<Rightarrow> ctx\<lparr>current_env := parent old\<rparr>)"

definition type_env_bind :: "TypeInferContext \<Rightarrow> string \<Rightarrow> InferredType \<Rightarrow> TypeInferContext" where
  "type_env_bind ctx name t =
     (case current_env ctx of
        None \<Rightarrow> ctx
      | Some env \<Rightarrow>
          ctx\<lparr>current_env := Some (TypeEnv (TypeBinding name t # bindings env) (parent env))\<rparr>)"

text \<open>The inner loop of \<open>type_env_lookup\<close>: the first binding of the name in one scope.\<close>

fun lookup_bindings :: "TypeBinding list \<Rightarrow> string \<Rightarrow> InferredType option" where
  "lookup_bindings [] name = None"
| "lookup_bindings (b # bs) name =
     (if tb_name b = name then Some (tb_type b) else lookup_bindings bs name)"

text \<open>The outer loop: the current scope, then each enclosing one.\<close>

fun lookup_env :: "TypeEnv option \<Rightarrow> string \<Rightarrow> InferredType" where
  "lookup_env None name = infer_unknown"
| "lookup_env (Some (TypeEnv bs p)) name =
     (case lookup_bindings bs name of
        Some t \<Rightarrow> t
      | None \<Rightarrow> lookup_env p name)"

definition type_env_lookup :: "TypeInferContext \<Rightarrow> string \<Rightarrow> InferredType" where
  "type_env_lookup ctx name = lookup_env (current_env ctx) name"

text \<open>
  \<open>type_env_refine\<close>. The inner loop stops at the first binding of the name in a scope
  and returns from the function there, whether or not it has overwritten the binding:
  \<open>None\<close> means the scope has no such binding, \<open>Some (bs', c)\<close> gives the scope after
  the visit and tells whether \<open>ctx->changed = 1\<close> was executed.
\<close>

fun refine_bindings ::
  "TypeBinding list \<Rightarrow> string \<Rightarrow> InferredType \<Rightarrow> (TypeBinding list \<times> bool) option" where
  "refine_bindings [] name t = None"
| "refine_bindings (b # bs) name t =
     (if tb_name b = name then
        (if kind (tb_type b) = INFER_UNKNOWN \<and> kind t \<noteq> INFER_UNKNOWN then
           Some (TypeBinding (tb_name b) t # bs, True)
         else if kind (tb_type b) = INFER_NUMERIC \<and> infer_is_integer t then
           Some (TypeBinding (tb_name b) t # bs, True)
         else if kind (tb_type b) = INFER_INTEGER \<and>
                 (kind t = INFER_I32 \<or> kind t = INFER_I64) then
           Some (TypeBinding (tb_name b) t # bs, True)
         else Some (b # bs, False))
      else
        (case refine_bindings bs name t of
           None \<Rightarrow> None
         | Some (bs', c) \<Rightarrow> Some (b # bs', c)))"

fun refine_env :: "TypeEnv option \<Rightarrow> string \<Rightarrow> InferredType \<Rightarrow> TypeEnv option \<times> bool" where
  "refine_env None name t = (None, False)"
| "refine_env (Some (TypeEnv bs p)) name t =
     (case refine_bindings bs name t of
        Some (bs', c) \<Rightarrow> (Some (TypeEnv bs' p), c)
      | None \<Rightarrow>
          (case refine_env p name t of
             (p', c) \<Rightarrow> (Some (TypeEnv bs p'), c)))"

definition type_env_refine :: "TypeInferContext \<Rightarrow> string \<Rightarrow> InferredType \<Rightarrow> TypeInferContext" where
  "type_env_refine ctx name t =
     (case refine_env (current_env ctx) name t of
        (env', c) \<Rightarrow> ctx\<lparr>current_env := env', changed := (if c then 1 else changed ctx)\<rparr>)"

fun register_in :: "FuncReturnType list \<Rightarrow> string \<Rightarrow> InferredType \<Rightarrow> FuncReturnType list option" where
  "register_in [] name t = None"
| "register_in (f # fs) name t =
     (if fr_name f = name then Some (FuncReturnType (fr_name f) t # fs)
      else (case register_in fs name t of
              None \<Rightarrow> None
            | Some fs' \<Rightarrow> Some (f # fs')))"

definition type_register_func_return ::
  "TypeInferContext \<Rightarrow> string \<Rightarrow> InferredType \<Rightarrow> TypeInferContext" where
  "type_register_func_return ctx name ret_type =
     (case register_in (func_returns ctx) name ret_type of
        Some fs' \<Rightarrow> ctx\<lparr>func_returns := fs'\<rparr>
      | None \<Rightarrow> ctx\<lparr>func_returns := FuncReturnType name ret_type # func_returns ctx\<rparr>)"

fun lookup_returns :: "FuncReturnType list \<Rightarrow> string \<Rightarrow> InferredType" where
  "lookup_returns [] name = infer_unknown"
| "lookup_returns (f # fs) name =
     (if fr_name f = name then return_type f else lookup_returns fs name)"

definition type_lookup_func_return :: "TypeInferContext \<Rightarrow> string \<Rightarrow> InferredType" where
  "type_lookup_func_return ctx name = lookup_returns (func_returns ctx) name"

section \<open>Type inference: expressions and statements\<close>

fun infer_binary_result :: "BinaryOp \<Rightarrow> InferredType \<Rightarrow> InferredType \<Rightarrow> InferredType" where
  "infer_binary_result op left right =
     (if op = OP_ADD \<or> op = OP_SUB \<or> op = OP_MUL then
        (if infer_is_f64 left \<or> infer_is_f64 right then infer_f64
         else if infer_is_i64 left \<or> infer_is_i64 right then infer_i64
         else if infer_is_i32 left \<and> infer_is_i32 right then infer_i32
         else if infer_is_integer left \<and> infer_is_integer right then infer_integer
         else if infer_is_numeric left \<and> infer_is_numeric right then infer_numeric
         else if op = OP_ADD \<and> (kind left = INFER_STRING \<or> kind right = INFER_STRING) then
           infer_string
         else infer_unknown)
      else if op = OP_DIV then infer_f64
      else if op = OP_MOD then
        (if infer_is_i64 left \<or> infer_is_i64 right then infer_i64
         else if infer_is_i32 left \<and> infer_is_i32 right then infer_i32
         else if infer_is_integer left \<and> infer_is_integer right then infer_integer
         else infer_numeric)
      else if op = OP_EQUAL \<or> op = OP_NOT_EQUAL \<or> op = OP_LESS \<or> op = OP_LESS_EQUAL \<or>
              op = OP_GREATER \<or> op = OP_GREATER_EQUAL then infer_bool
      else if op = OP_AND \<or> op = OP_OR then infer_bool
      else if op = OP_BIT_AND \<or> op = OP_BIT_OR \<or> op = OP_BIT_XOR \<or>
              op = OP_BIT_LSHIFT \<or> op = OP_BIT_RSHIFT then
        (if infer_is_i64 left \<or> infer_is_i64 right then infer_i64
         else if infer_is_i32 left \<and> infer_is_i32 right then infer_i32
         else infer_integer)
      else infer_unknown)"

fun infer_unary_result :: "UnaryOp \<Rightarrow> InferredType \<Rightarrow> InferredType" where
  "infer_unary_result UNARY_NEGATE operand = operand"
| "infer_unary_result UNARY_NOT operand = infer_bool"
| "infer_unary_result UNARY_BIT_NOT operand = operand"

text \<open>
  \<open>infer_expr\<close> returns the inferred type together with the context, which an
  assignment inside the expression may have refined. The operands are inferred in the
  order of the C statements. The ternary does not visit its condition, a call visits
  neither its callee nor its arguments, and the literals of arrays, objects and
  functions do not visit their parts, as in the source. \<open>EXPR_INDEX_ASSIGN\<close> has no
  case of its own in the switch and takes the default.
\<close>

fun infer_expr :: "TypeInferContext \<Rightarrow> Expr \<Rightarrow> InferredType \<times> TypeInferContext" where
  "infer_expr ctx (EXPR_NUMBER int_value is_float) =
     (if is_float then (infer_f64, ctx)
      else if int_value \<ge> - 2147483648 \<and> int_value \<le> 2147483647 then (infer_i32, ctx)
      else (infer_i64, ctx))"
| "infer_expr ctx (EXPR_BOOL b) = (infer_bool, ctx)"
| "infer_expr ctx (EXPR_STRING s) = (infer_string, ctx)"
| "infer_expr ctx (EXPR_STRING_INTERPOLATION ss es) = (infer_string, ctx)"
| "infer_expr ctx EXPR_NULL = (infer_null, ctx)"
| "infer_expr ctx (EXPR_IDENT name) = (type_env_lookup ctx name, ctx)"
| "infer_expr ctx (EXPR_BINARY op l r) =
     (case infer_expr ctx l of (left, ctx1) \<Rightarrow>
      case infer_expr ctx1 r of (right, ctx2) \<Rightarrow>
        (infer_binary_result op left right, ctx2))"
| "infer_expr ctx (EXPR_UNARY op e) =
     (case infer_expr ctx e of (operand, ctx1) \<Rightarrow>
        (infer_unary_result op operand, ctx1))"
| "infer_expr ctx (EXPR_ASSIGN name e) =
     (case infer_expr ctx e of (v, ctx1) \<Rightarrow>
        (v, type_env_refine ctx1 name v))"
| "infer_expr ctx (EXPR_TERNARY c t e) =
     (case infer_expr ctx t of (then_t, ctx1) \<Rightarrow>
      case infer_expr ctx1 e of (else_t, ctx2) \<Rightarrow>
        (infer_meet then_t else_t, ctx2))"
| "infer_expr ctx (EXPR_CALL func args) =
     (case func of
        Some (EXPR_IDENT name) \<Rightarrow> (type_lookup_func_return ctx name, ctx)
      | _ \<Rightarrow> (infer_unknown, ctx))"
| "infer_expr ctx (EXPR_ARRAY_LITERAL es) = (InferredType INFER_ARRAY None, ctx)"
| "infer_expr ctx (EXPR_OBJECT_LITERAL ns es) = (InferredType INFER_OBJECT None, ctx)"
| "infer_expr ctx (EXPR_FUNCTION ps ts rt body) = (InferredType INFER_FUNCTION None, ctx)"
| "infer_expr ctx (EXPR_INDEX obj i) = (infer_unknown, ctx)"
| "infer_expr ctx (EXPR_GET_PROPERTY obj p) = (infer_unknown, ctx)"
| "infer_expr ctx (EXPR_PREFIX_INC e) = infer_expr ctx e"
| "infer_expr ctx (EXPR_PREFIX_DEC e) = infer_expr ctx e"
| "infer_expr ctx (EXPR_POSTFIX_INC e) = infer_expr ctx e"
| "infer_expr ctx (EXPR_POSTFIX_DEC e) = infer_expr ctx e"
| "infer_expr ctx (EXPR_RUNE r) = (infer_i32, ctx)"
| "infer_expr ctx (EXPR_AWAIT e) = (infer_unknown, ctx)"
| "infer_expr ctx (EXPR_NULL_COALESCE l r) =
     (case infer_expr ctx l of (left, ctx1) \<Rightarrow>
      case infer_expr ctx1 r of (right, ctx2) \<Rightarrow>
        (if kind left = INFER_NULL then (right, ctx2)
         else (infer_meet left right, ctx2)))"
| "infer_expr ctx (EXPR_INDEX_ASSIGN obj i v) = (infer_unknown, ctx)"

text \<open>
  The switch over the kind of a type annotation, which \<open>infer_stmt\<close> writes out twice
  (for \<open>STMT_LET\<close> and for \<open>STMT_CONST\<close>): six kinds overwrite \<open>init_type\<close>, and the
  \<open>default: break\<close> leaves it as the initialiser gave it.
\<close>

definition annotation_type :: "Type \<Rightarrow> InferredType \<Rightarrow> InferredType" where
  "annotation_type ty init_type =
     (case type_kind ty of
        TYPE_I32 \<Rightarrow> infer_i32
      | TYPE_I64 \<Rightarrow> infer_i64
      | TYPE_F32 \<Rightarrow> infer_f64
      | TYPE_F64 \<Rightarrow> infer_f64
      | TYPE_BOOL \<Rightarrow> infer_bool
      | TYPE_STRING \<Rightarrow> infer_string
      | _ \<Rightarrow> init_type)"

fun infer_stmt :: "TypeInferContext \<Rightarrow> Stmt \<Rightarrow> TypeInferContext"
and infer_stmts :: "TypeInferContext \<Rightarrow> Stmt list \<Rightarrow> TypeInferContext" where
  "infer_stmt ctx (STMT_LET name type_annotation val) =
     (case (case val of None \<Rightarrow> (infer_unknown, ctx) | Some e \<Rightarrow> infer_expr ctx e) of
        (init_type, ctx1) \<Rightarrow>
          type_env_bind ctx1 name
            (case type_annotation of
               None \<Rightarrow> init_type
             | Some ty \<Rightarrow> annotation_type ty init_type))"
| "infer_stmt ctx (STMT_CONST name type_annotation val) =
     (case (case val of None \<Rightarrow> (infer_unknown, ctx) | Some e \<Rightarrow> infer_expr ctx e) of
        (init_type, ctx1) \<Rightarrow>
          type_env_bind ctx1 name
            (case type_annotation of
               None \<Rightarrow> init_type
             | Some ty \<Rightarrow> annotation_type ty init_type))"
| "infer_stmt ctx (STMT_BLOCK statements) =
     type_env_pop (infer_stmts (type_env_push ctx) statements)"
| "infer_stmt ctx (STMT_IF condition then_branch else_branch) =
     (let ctx1 = snd (infer_expr ctx condition);
          ctx2 = infer_stmt ctx1 then_branch
      in case else_branch of
           None \<Rightarrow> ctx2
         | Some s \<Rightarrow> infer_stmt ctx2 s)"
| "infer_stmt ctx (STMT_WHILE condition body) =
     infer_stmt (snd (infer_expr ctx condition)) body"
| "infer_stmt ctx (STMT_FOR initializer condition increment body) =
     (let ctx1 = type_env_push ctx;
          ctx2 = (case initializer of None \<Rightarrow> ctx1 | Some s \<Rightarrow> infer_stmt ctx1 s);
          ctx3 = (case condition of None \<Rightarrow> ctx2 | Some e \<Rightarrow> snd (infer_expr ctx2 e));
          ctx4 = (case increment of None \<Rightarrow> ctx3 | Some e \<Rightarrow> snd (infer_expr ctx3 e))
      in type_env_pop (infer_stmt ctx4 body))"
| "infer_stmt ctx (STMT_EXPR e) = snd (infer_expr ctx e)"
| "infer_stmt ctx (STMT_RETURN val) =
     (case val of None \<Rightarrow> ctx | Some e \<Rightarrow> snd (infer_expr ctx e))"
| "infer_stmt ctx STMT_BREAK = ctx"
| "infer_stmt ctx STMT_CONTINUE = ctx"
| "infer_stmts ctx [] = ctx"
| "infer_stmts ctx (s # ss) = infer_stmts (infer_stmt ctx s) ss"

text \<open>
  Two notions the statements below need. \<open>refines old new\<close> is the disjunction of the
  three tests under which \<open>type_env_refine\<close> overwrites a binding; \<open>type_env_bound\<close>
  tells whether some scope of the chain binds the name (a lookup alone cannot tell an
  unbound name from one bound to UNKNOWN).
\<close>

definition refines :: "InferredType \<Rightarrow> InferredType \<Rightarrow> bool" where
  "refines old new =
     (kind old = INFER_UNKNOWN \<and> kind new \<noteq> INFER_UNKNOWN \<or>
      kind old = INFER_NUMERIC \<and> infer_is_integer new \<or>
      kind old = INFER_INTEGER \<and> (kind new = INFER_I32 \<or> kind new = INFER_I64))"

fun bound_env :: "TypeEnv option \<Rightarrow> string \<Rightarrow> bool" where
  "bound_env None name = False"
| "bound_env (Some (TypeEnv bs p)) name =
     (case lookup_bindings bs name of Some t \<Rightarrow> True | None \<Rightarrow> bound_env p name)"



section \<open>Interpreter: failures, values and arrays (values.c)\<close>

text \<open>
  A runtime fault of the interpreter writes one line to stderr and calls \<open>exit(1)\<close>.
  A function that can fail returns \<open>error + 'a\<close>: \<open>Inl (Exit text code)\<close> is the text
  written to stderr and the exit status of the process, \<open>Inr\<close> the normal return.
\<close>

datatype error = Exit (stderr: string) (status: int)

definition newline :: string where
  "newline = [CHR 0x0A]"

text \<open>The \<open>'%s'\<close> of the format strings: the name between two apostrophes.\<close>

definition quoted :: "string \<Rightarrow> string" where
  "quoted name = [CHR 0x27] @ name @ [CHR 0x27]"

text \<open>
  The \<open>%d\<close> of the format strings: the decimal digits of an integer, with a minus sign
  for a negative one.
\<close>

fun dec_nat :: "nat \<Rightarrow> string" where
  "dec_nat n =
     (if n < 10 then [''0123456789'' ! n]
      else dec_nat (n div 10) @ [''0123456789'' ! (n mod 10)])"

declare dec_nat.simps [simp del]

definition dec_int :: "int \<Rightarrow> string" where
  "dec_int i = (if i < 0 then ''-'' @ dec_nat (nat (- i)) else dec_nat (nat i))"

text \<open>
  Modelled from the spec: the header internal.h, which declares \<open>ValueType\<close>, \<open>Value\<close>,
  \<open>Array\<close> and \<open>Environment\<close>, is not among the sources. The tags are the cases of the
  switch in \<open>print_value\<close>, the members of the union those that the constructors of
  values.c write. A \<open>Value\<close> is the tag and the union, as in C. Scalars are words of
  their width (the two floating-point members as their bit patterns, since nothing
  modelled here computes with them). A pointer to an \<open>Array\<close> is the array it points to,
  \<open>None\<close> for NULL, so two values never share an array here; no statement below
  depends on sharing. Pointers to objects, files, buffers and functions are addresses.
  \<open>as_unset\<close> is the union of a value whose constructor wrote no member (\<open>val_null\<close>).

  An \<open>Array\<close> is its buffer \<open>elements\<close> (a list with one entry per allocated slot), the
  number \<open>length\<close> of slots in use and the number \<open>capacity\<close> of slots allocated. The C
  fields are of type \<open>int\<close>; the two counts are natural numbers here, and an index
  argument, which may be negative, is an integer. The arithmetic on them is not
  bounded to 32 bits.
\<close>

datatype ValueType =
    VAL_I8 | VAL_I16 | VAL_I32 | VAL_U8 | VAL_U16 | VAL_U32 | VAL_F32 | VAL_F64
  | VAL_BOOL | VAL_STRING | VAL_PTR | VAL_BUFFER | VAL_ARRAY | VAL_FILE | VAL_OBJECT
  | VAL_TYPE | VAL_BUILTIN_FN | VAL_FUNCTION | VAL_NULL

datatype Value = Value (val_type: ValueType) (as: ValueUnion)
and ValueUnion =
    as_i8 "8 word" | as_i16 "16 word" | as_i32 "32 word"
  | as_u8 "8 word" | as_u16 "16 word" | as_u32 "32 word"
  | as_f32 "32 word" | as_f64 "64 word"
  | as_bool int
  | as_string string
  | as_ptr nat
  | as_buffer nat
  | as_file nat
  | as_object nat
  | as_function nat
  | as_type TypeKind
  | as_array "Array option"
  | as_unset
and Array = Array (arr_elements: "Value list") (arr_length: nat) (arr_capacity: nat)

definition val_i32 :: "32 word \<Rightarrow> Value" where
  "val_i32 v = Value VAL_I32 (as_i32 v)"

definition val_int :: "32 word \<Rightarrow> Value" where
  "val_int v = val_i32 v"

definition val_bool :: "int \<Rightarrow> Value" where
  "val_bool v = Value VAL_BOOL (as_bool (if v \<noteq> 0 then 1 else 0))"

definition val_null :: Value where
  "val_null = Value VAL_NULL as_unset"

definition val_array :: "Array option \<Rightarrow> Value" where
  "val_array arr = Value VAL_ARRAY (as_array arr)"

text \<open>
  \<open>array_new\<close> allocates eight slots and initialises none. The content of a slot at
  or beyond \<open>length\<close> is indeterminate in C; such slots hold \<open>val_null\<close> here, and no
  statement below reads one.
\<close>

definition array_new :: Array where
  "array_new = Array (replicate 8 val_null) 0 8"

definition array_grow :: "Array \<Rightarrow> Array" where
  "array_grow arr =
     Array (arr_elements arr @ replicate (arr_capacity arr * 2 - arr_capacity arr) val_null)
           (arr_length arr) (arr_capacity arr * 2)"

definition array_push :: "Array \<Rightarrow> Value \<Rightarrow> Array" where
  "array_push arr v =
     (let arr1 = (if arr_length arr \<ge> arr_capacity arr then array_grow arr else arr)
      in Array ((arr_elements arr1)[arr_length arr1 := v])
               (arr_length arr1 + 1) (arr_capacity arr1))"

text \<open>\<open>array_pop\<close> returns the value and leaves the array with one slot less in use.\<close>

definition array_pop :: "Array \<Rightarrow> Value \<times> Array" where
  "array_pop arr =
     (if arr_length arr = 0 then (val_null, arr)
      else (arr_elements arr ! (arr_length arr - 1),
            Array (arr_elements arr) (arr_length arr - 1) (arr_capacity arr)))"

definition array_get :: "Array \<Rightarrow> int \<Rightarrow> error + Value" where
  "array_get arr index =
     (if index < 0 \<or> index \<ge> int (arr_length arr) then
        Inl (Exit (''Runtime error: Array index '' @ dec_int index @
                   '' out of bounds (length '' @ dec_int (int (arr_length arr)) @ '')'' @
                   newline) 1)
      else Inr (arr_elements arr ! nat index))"

text \<open>
  The loop of \<open>array_set\<close> that pushes nulls while \<open>index >= arr->length\<close>. Each
  round adds one to \<open>length\<close>, so the distance to \<open>index\<close> decreases.
\<close>

function array_set_extend :: "Array \<Rightarrow> nat \<Rightarrow> Array" where
  "array_set_extend arr index =
     (if index \<ge> arr_length arr then array_set_extend (array_push arr val_null) index
      else arr)"
  by pat_completeness auto
termination
  by (relation "measure (\<lambda>(arr, index). Suc index - arr_length arr)")
     (auto simp: array_push_def array_grow_def Let_def)

declare array_set_extend.simps [simp del]

definition array_set :: "Array \<Rightarrow> int \<Rightarrow> Value \<Rightarrow> error + Array" where
  "array_set arr index v =
     (if index < 0 then
        Inl (Exit (''Runtime error: Negative array index not supported'' @ newline) 1)
      else
        (let arr1 = array_set_extend arr (nat index)
         in Inr (Array ((arr_elements arr1)[nat index := v])
                       (arr_length arr1) (arr_capacity arr1))))"

text \<open>
  The buffer of a well-formed array has \<open>capacity\<close> slots, of which at most
  \<open>capacity\<close> are in use, and \<open>capacity\<close> is positive (\<open>array_grow\<close> doubles it, and
  \<open>array_new\<close> starts at eight). \<open>arr_live\<close> is the content: the slots in use.
\<close>

definition arr_wf :: "Array \<Rightarrow> bool" where
  "arr_wf arr =
     (arr_length arr \<le> arr_capacity arr \<and> length (arr_elements arr) = arr_capacity arr \<and>
      0 < arr_capacity arr)"

definition arr_live :: "Array \<Rightarrow> Value list" where
  "arr_live arr = take (arr_length arr) (arr_elements arr)"

section \<open>Interpreter: environments (environment.c)\<close>

text \<open>
  Modelled from the spec: the struct \<open>Environment\<close> is declared in internal.h
  (include/interpreter.h declares an earlier one, without \<open>is_const\<close>). Its
  fields, as environment.c uses them, are three arrays \<open>names\<close>, \<open>values\<close> and
  \<open>is_const\<close>, written together at the same index, the number \<open>count\<close> of entries in
  use, the allocated \<open>capacity\<close>, and the pointer \<open>parent\<close> to the enclosing scope
  (NULL at the outermost one). The three arrays are one list of entries here, one
  \<open>Binding\<close> per index below \<open>count\<close>, in index order; \<open>is_const\<close> is the C \<open>int\<close>,
  tested against zero. The functions mutate scopes in place; the model returns the
  scope, with its chain of parents, after the call.
\<close>

datatype Binding = Binding (b_name: string) (b_value: Value) (b_is_const: int)

datatype Environment =
  Environment (entries: "Binding list") (env_capacity: nat) (env_parent: "Environment option")

definition env_new :: "Environment option \<Rightarrow> Environment" where
  "env_new p = Environment [] 16 p"

definition count :: "Environment \<Rightarrow> nat" where
  "count env = length (entries env)"

definition env_grow :: "Environment \<Rightarrow> Environment" where
  "env_grow env = Environment (entries env) (env_capacity env * 2) (env_parent env)"

text \<open>
  The loop \<open>for (i = 0; i < count; i++) if (strcmp(names[i], name) == 0)\<close>, which
  opens \<open>env_define\<close>, \<open>env_set\<close> (twice) and \<open>env_get\<close>: the first index whose name is
  equal, if there is one.
\<close>

fun find_name :: "Binding list \<Rightarrow> string \<Rightarrow> nat option" where
  "find_name [] name = None"
| "find_name (b # bs) name =
     (if b_name b = name then Some 0 else map_option Suc (find_name bs name))"

text \<open>
  The last five statements of \<open>env_define\<close> and of \<open>env_set\<close>: grow when the scope is
  full, then write the new entry at index \<open>count\<close> and increment \<open>count\<close>.
\<close>

definition append_binding :: "Environment \<Rightarrow> Binding \<Rightarrow> Environment" where
  "append_binding env b =
     (let env1 = (if count env \<ge> env_capacity env then env_grow env else env)
      in Environment (entries env1 @ [b]) (env_capacity env1) (env_parent env1))"

definition env_define :: "Environment \<Rightarrow> string \<Rightarrow> Value \<Rightarrow> int \<Rightarrow> error + Environment" where
  "env_define env name v is_const =
     (case find_name (entries env) name of
        Some i \<Rightarrow>
          Inl (Exit (''Runtime error: Variable '' @ quoted name @
                     '' already defined in this scope'' @ newline) 1)
      | None \<Rightarrow> Inr (append_binding env (Binding name v is_const)))"

definition const_error :: "string \<Rightarrow> error" where
  "const_error name =
     Exit (''Runtime error: Cannot assign to const variable '' @ quoted name @ newline) 1"

text \<open>\<open>values[i] = value\<close>: the name and the flag at index \<open>i\<close> stay.\<close>

definition set_value :: "Binding list \<Rightarrow> nat \<Rightarrow> Value \<Rightarrow> Binding list" where
  "set_value es i v = es[i := Binding (b_name (es ! i)) v (b_is_const (es ! i))]"

text \<open>
  The \<open>while (search_env != NULL)\<close> loop of \<open>env_set\<close> over the enclosing scopes.
  \<open>None\<close>: the loop ended without a match. \<open>Some (Inl e)\<close>: the first match is const.
  \<open>Some (Inr p)\<close>: the first match was overwritten, and \<open>p\<close> is the chain after it.
\<close>

fun env_set_parents ::
  "Environment option \<Rightarrow> string \<Rightarrow> Value \<Rightarrow> (error + Environment option) option" where
  "env_set_parents None name v = None"
| "env_set_parents (Some (Environment es cap p)) name v =
     (case find_name es name of
        Some i \<Rightarrow>
          (if b_is_const (es ! i) \<noteq> 0 then Some (Inl (const_error name))
           else Some (Inr (Some (Environment (set_value es i v) cap p))))
      | None \<Rightarrow>
          (case env_set_parents p name v of
             None \<Rightarrow> None
           | Some (Inl e) \<Rightarrow> Some (Inl e)
           | Some (Inr p') \<Rightarrow> Some (Inr (Some (Environment es cap p')))))"

definition env_set :: "Environment \<Rightarrow> string \<Rightarrow> Value \<Rightarrow> error + Environment" where
  "env_set env name v =
     (case find_name (entries env) name of
        Some i \<Rightarrow>
          (if b_is_const (entries env ! i) \<noteq> 0 then Inl (const_error name)
           else Inr (Environment (set_value (entries env) i v) (env_capacity env) (env_parent env)))
      | None \<Rightarrow>
          (case env_set_parents (env_parent env) name v of
             Some (Inl e) \<Rightarrow> Inl e
           | Some (Inr p') \<Rightarrow> Inr (Environment (entries env) (env_capacity env) p')
           | None \<Rightarrow> Inr (append_binding env (Binding name v 0))))"

fun env_get :: "Environment \<Rightarrow> string \<Rightarrow> error + Value" where
  "env_get (Environment es cap p) name =
     (case find_name es name of
        Some i \<Rightarrow> Inr (b_value (es ! i))
      | None \<Rightarrow>
          (case p of
             Some e \<Rightarrow> env_get e name
           | None \<Rightarrow> Inl (Exit (''Runtime error: Undefined variable '' @ quoted name @ newline) 1)))"

text \<open>
  For the statements: the scopes of a chain, innermost first, each as its list of
  entries, and the names a scope binds.
\<close>

fun chain_from :: "Environment option \<Rightarrow> Binding list list" where
  "chain_from None = []"
| "chain_from (Some (Environment es cap p)) = es # chain_from p"

definition chain :: "Environment \<Rightarrow> Binding list list" where
  "chain env = chain_from (Some env)"

definition scope_names :: "Binding list \<Rightarrow> string set" where
  "scope_names es = b_name ` set es"

text \<open>
  A chain of two scopes for the concrete checks: \<open>a\<close> in the current scope; a const
  \<open>k\<close> and a mutable \<open>x\<close> in the enclosing one.
\<close>

definition env_example :: Environment where
  "env_example =
     Environment [Binding ''a'' val_null 0] 16
       (Some (Environment [Binding ''k'' val_null 1, Binding ''x'' val_null 0] 16 None))"

section \<open>Runtime library: values and arrays (builtins_array.c)\<close>

text \<open>
  Modelled from the spec: the header builtins_internal.h, which declares
  \<open>HmlValueType\<close>, \<open>HmlValue\<close>, \<open>HmlArray\<close>, \<open>hml_runtime_error\<close> and the value
  constructors, is not among the sources. The tags are the value kinds of section 3.2
  of the specification under the prefix \<open>HML_VAL_\<close> that builtins_array.c uses. An
  \<open>HmlValue\<close> is the tag \<open>type\<close> and the union \<open>as\<close>; the members kept are those
  builtins_array.c reads or the constructors it calls write, and \<open>hml_as_other\<close>
  stands for every other member. As for the interpreter, a pointer to an array is
  the array it points to (\<open>None\<close> for NULL), a scalar is a word, and the reference
  counts (\<open>ref_count\<close>, \<open>freed\<close>, \<open>hml_retain\<close>, \<open>hml_release\<close>) are left out: they
  change no element, length or tag.
\<close>

datatype HmlValueType =
    HML_VAL_I8 | HML_VAL_I16 | HML_VAL_I32 | HML_VAL_I64
  | HML_VAL_U8 | HML_VAL_U16 | HML_VAL_U32
  | HML_VAL_F32 | HML_VAL_F64
  | HML_VAL_BOOL | HML_VAL_STRING | HML_VAL_ARRAY | HML_VAL_OBJECT
  | HML_VAL_BUFFER | HML_VAL_FILE
  | HML_VAL_FUNCTION | HML_VAL_BUILTIN_FN | HML_VAL_CLOSURE
  | HML_VAL_PTR | HML_VAL_TYPE | HML_VAL_NULL

datatype HmlValue = HmlValue (hml_type: HmlValueType) (hml_as: HmlUnion)
and HmlUnion =
    hml_as_i32 "32 word"
  | hml_as_bool int
  | hml_as_string string
  | hml_as_array "HmlArray option"
  | hml_as_other nat
  | hml_as_unset
and HmlArray =
  HmlArray (hml_elements: "HmlValue list") (hml_length: nat) (hml_capacity: nat)
           (hml_element_type: HmlValueType)

text \<open>
  Modelled from the spec: \<open>hml_val_null\<close> and \<open>hml_val_i32\<close>, declared in
  builtins_internal.h, build the value of their kind (section 3.2): the tag, and for
  \<open>i32\<close> the number.
\<close>

definition hml_val_null :: HmlValue where
  "hml_val_null = HmlValue HML_VAL_NULL hml_as_unset"

definition hml_val_i32 :: "32 word \<Rightarrow> HmlValue" where
  "hml_val_i32 v = HmlValue HML_VAL_I32 (hml_as_i32 v)"

text \<open>
  Modelled from the spec: \<open>hml_runtime_error\<close> formats its message, and the process
  ends as sections 6 and 7 say of every fatal fault: the text \<open>Runtime error: \<close>
  followed by the message on stderr, and exit status 1.
\<close>

definition hml_runtime_error :: "string \<Rightarrow> error" where
  "hml_runtime_error msg = Exit (''Runtime error: '' @ msg) 1"

text \<open>
  The test that opens every function of the file,
  \<open>arr.type != HML_VAL_ARRAY || !arr.as.as_array\<close>: \<open>None\<close> when it holds, the array
  behind the pointer otherwise.
\<close>

definition hml_checked_array :: "HmlValue \<Rightarrow> HmlArray option" where
  "hml_checked_array arr =
     (if hml_type arr \<noteq> HML_VAL_ARRAY then None
      else (case hml_as arr of hml_as_array p \<Rightarrow> p | _ \<Rightarrow> None))"

definition type_mismatch :: error where
  "type_mismatch =
     hml_runtime_error ''Type mismatch in typed array - expected element of specific type''"

text \<open>
  The block \<open>Grow if needed\<close>, which push, unshift, insert and the loop of set each
  write out: when every slot is in use, reallocate to eight slots or to twice as many.
  The new slots are indeterminate in C and hold \<open>hml_val_null\<close> here; each is written
  before it is read.
\<close>

definition hml_grow_if_needed :: "HmlArray \<Rightarrow> HmlArray" where
  "hml_grow_if_needed a =
     (if hml_length a \<ge> hml_capacity a then
        (let new_cap = (if hml_capacity a = 0 then 8 else hml_capacity a * 2)
         in HmlArray (hml_elements a @ replicate (new_cap - hml_capacity a) hml_val_null)
                     (hml_length a) new_cap (hml_element_type a))
      else a)"

definition hml_array_push :: "HmlValue \<Rightarrow> HmlValue \<Rightarrow> error + HmlArray" where
  "hml_array_push arr val =
     (case hml_checked_array arr of
        None \<Rightarrow> Inl (hml_runtime_error ''push() requires array'')
      | Some a \<Rightarrow>
          if hml_element_type a \<noteq> HML_VAL_NULL \<and> hml_type val \<noteq> hml_element_type a then
            Inl type_mismatch
          else
            (let a1 = hml_grow_if_needed a
             in Inr (HmlArray ((hml_elements a1)[hml_length a1 := val])
                              (hml_length a1 + 1) (hml_capacity a1) (hml_element_type a1))))"

text \<open>
  \<open>hml_to_i32\<close>, the conversion of a value to a C \<open>int\<close>, is declared in
  builtins_internal.h and defined outside the sources. It is a parameter here: the
  functions that take an index receive the conversion as their first argument
  \<open>to_i32\<close>, and every statement about them holds for every conversion.
  \<open>hml_to_i32_of_i32\<close> is one such conversion, for the concrete checks: the number an
  \<open>I32\<close> value carries, and 0 for any other value.
\<close>

definition hml_to_i32_of_i32 :: "HmlValue \<Rightarrow> int" where
  "hml_to_i32_of_i32 v = (case hml_as v of hml_as_i32 w \<Rightarrow> sint w | _ \<Rightarrow> 0)"

definition hml_array_get :: "(HmlValue \<Rightarrow> int) \<Rightarrow> HmlValue \<Rightarrow> HmlValue \<Rightarrow> error + HmlValue" where
  "hml_array_get to_i32 arr index =
     (case hml_checked_array arr of
        None \<Rightarrow> Inl (hml_runtime_error ''Index access requires array'')
      | Some a \<Rightarrow>
          (let idx = to_i32 index
           in if idx < 0 \<or> idx \<ge> int (hml_length a) then
                Inl (hml_runtime_error (''Array index '' @ dec_int idx @
                       '' out of bounds (length '' @ dec_int (int (hml_length a)) @ '')''))
              else Inr (hml_elements a ! nat idx)))"

text \<open>
  The loop of \<open>hml_array_set\<close>, \<open>while (idx >= a->length)\<close>: grow if needed, write a
  null at index \<open>length\<close>, increment \<open>length\<close>.
\<close>

function hml_set_extend :: "HmlArray \<Rightarrow> nat \<Rightarrow> HmlArray" where
  "hml_set_extend a idx =
     (if idx \<ge> hml_length a then
        (let a1 = hml_grow_if_needed a
         in hml_set_extend
              (HmlArray ((hml_elements a1)[hml_length a1 := hml_val_null])
                        (hml_length a1 + 1) (hml_capacity a1) (hml_element_type a1))
              idx)
      else a)"
  by pat_completeness auto
termination
  by (relation "measure (\<lambda>(a, idx). Suc idx - hml_length a)")
     (auto simp: hml_grow_if_needed_def Let_def)

declare hml_set_extend.simps [simp del]

definition hml_array_set ::
  "(HmlValue \<Rightarrow> int) \<Rightarrow> HmlValue \<Rightarrow> HmlValue \<Rightarrow> HmlValue \<Rightarrow> error + HmlArray" where
  "hml_array_set to_i32 arr index val =
     (case hml_checked_array arr of
        None \<Rightarrow> Inl (hml_runtime_error ''Index assignment requires array'')
      | Some a \<Rightarrow>
          (let idx = to_i32 index
           in if hml_element_type a \<noteq> HML_VAL_NULL \<and> hml_type val \<noteq> hml_element_type a then
                Inl type_mismatch
              else if idx < 0 then
                Inl (hml_runtime_error ''Negative array index not supported'')
              else
                (let a1 = hml_set_extend a (nat idx)
                 in Inr (HmlArray ((hml_elements a1)[nat idx := val])
                                  (hml_length a1) (hml_capacity a1) (hml_element_type a1)))))"

definition hml_array_pop :: "HmlValue \<Rightarrow> error + HmlValue \<times> HmlArray" where
  "hml_array_pop arr =
     (case hml_checked_array arr of
        None \<Rightarrow> Inl (hml_runtime_error ''pop() requires array'')
      | Some a \<Rightarrow>
          if hml_length a = 0 then Inr (hml_val_null, a)
          else Inr (hml_elements a ! (hml_length a - 1),
                    HmlArray (hml_elements a) (hml_length a - 1) (hml_capacity a)
                             (hml_element_type a)))"

text \<open>
  \<open>for (i = 0; i < a->length - 1; i++) a->elements[i] = a->elements[i + 1]\<close>, the loop
  of \<open>hml_array_shift\<close>, entered with \<open>length\<close> at least 1: \<open>n\<close> is \<open>length\<close>.
\<close>

function shift_left_loop :: "HmlValue list \<Rightarrow> nat \<Rightarrow> nat \<Rightarrow> HmlValue list" where
  "shift_left_loop es i n =
     (if i < n - 1 then shift_left_loop (es[i := es ! (i + 1)]) (i + 1) n else es)"
  by pat_completeness auto
termination
  by (relation "measure (\<lambda>(es, i, n). n - i)") auto

declare shift_left_loop.simps [simp del]

definition hml_array_shift :: "HmlValue \<Rightarrow> error + HmlValue \<times> HmlArray" where
  "hml_array_shift arr =
     (case hml_checked_array arr of
        None \<Rightarrow> Inl (hml_runtime_error ''shift() requires array'')
      | Some a \<Rightarrow>
          if hml_length a = 0 then Inr (hml_val_null, a)
          else Inr (hml_elements a ! 0,
                    HmlArray (shift_left_loop (hml_elements a) 0 (hml_length a))
                             (hml_length a - 1) (hml_capacity a) (hml_element_type a)))"

text \<open>
  \<open>for (i = a->length; i > lo; i--) a->elements[i] = a->elements[i - 1]\<close>: the loop of
  \<open>hml_array_unshift\<close> with \<open>lo = 0\<close>, and of \<open>hml_array_insert\<close> with \<open>lo = idx\<close>.
\<close>

function shift_right_loop :: "HmlValue list \<Rightarrow> nat \<Rightarrow> nat \<Rightarrow> HmlValue list" where
  "shift_right_loop es i lo =
     (if i > lo then shift_right_loop (es[i := es ! (i - 1)]) (i - 1) lo else es)"
  by pat_completeness auto
termination
  by (relation "measure (\<lambda>(es, i, lo). i)") auto

declare shift_right_loop.simps [simp del]

definition hml_array_unshift :: "HmlValue \<Rightarrow> HmlValue \<Rightarrow> error + HmlArray" where
  "hml_array_unshift arr val =
     (case hml_checked_array arr of
        None \<Rightarrow> Inl (hml_runtime_error ''unshift() requires array'')
      | Some a \<Rightarrow>
          if hml_element_type a \<noteq> HML_VAL_NULL \<and> hml_type val \<noteq> hml_element_type a then
            Inl type_mismatch
          else
            (let a1 = hml_grow_if_needed a
             in Inr (HmlArray ((shift_right_loop (hml_elements a1) (hml_length a1) 0)[0 := val])
                              (hml_length a1 + 1) (hml_capacity a1) (hml_element_type a1))))"

definition hml_array_insert ::
  "(HmlValue \<Rightarrow> int) \<Rightarrow> HmlValue \<Rightarrow> HmlValue \<Rightarrow> HmlValue \<Rightarrow> error + HmlArray" where
  "hml_array_insert to_i32 arr index val =
     (case hml_checked_array arr of
        None \<Rightarrow> Inl (hml_runtime_error ''insert() requires array'')
      | Some a \<Rightarrow>
          (let idx = to_i32 index
           in if hml_element_type a \<noteq> HML_VAL_NULL \<and> hml_type val \<noteq> hml_element_type a then
                Inl type_mismatch
              else if idx < 0 \<or> idx > int (hml_length a) then
                Inl (hml_runtime_error (''insert index '' @ dec_int idx @
                       '' out of bounds (length '' @ dec_int (int (hml_length a)) @ '')''))
              else
                (let a1 = hml_grow_if_needed a
                 in Inr (HmlArray
                           ((shift_right_loop (hml_elements a1) (hml_length a1) (nat idx))
                              [nat idx := val])
                           (hml_length a1 + 1) (hml_capacity a1) (hml_element_type a1)))))"

definition hml_array_set_element_type :: "HmlValue \<Rightarrow> HmlValueType \<Rightarrow> error + HmlArray" where
  "hml_array_set_element_type arr t =
     (case hml_checked_array arr of
        None \<Rightarrow> Inl (hml_runtime_error ''cannot set element type on non-array'')
      | Some a \<Rightarrow> Inr (HmlArray (hml_elements a) (hml_length a) (hml_capacity a) t))"

definition hml_type_matches :: "HmlValue \<Rightarrow> HmlValueType \<Rightarrow> bool" where
  "hml_type_matches val expected = (if expected = HML_VAL_NULL then True else hml_type val = expected)"

text \<open>
  The loop of \<open>hml_validate_typed_array\<close> over the indices below \<open>length\<close>: \<open>True\<close>
  when it reaches the end, \<open>False\<close> when an element does not match.
\<close>

function validate_loop :: "HmlArray \<Rightarrow> HmlValueType \<Rightarrow> nat \<Rightarrow> bool" where
  "validate_loop a t i =
     (if i < hml_length a then
        (if \<not> hml_type_matches (hml_elements a ! i) t then False
         else validate_loop a t (i + 1))
      else True)"
  by pat_completeness auto
termination
  by (relation "measure (\<lambda>(a, t, i). hml_length a - i)") auto

declare validate_loop.simps [simp del]

definition hml_validate_typed_array :: "HmlValue \<Rightarrow> HmlValueType \<Rightarrow> error + HmlArray" where
  "hml_validate_typed_array arr t =
     (case hml_checked_array arr of
        None \<Rightarrow> Inl (hml_runtime_error ''Expected array'')
      | Some a \<Rightarrow>
          if t = HML_VAL_NULL then Inr a
          else if \<not> validate_loop a t 0 then Inl type_mismatch
          else Inr (HmlArray (hml_elements a) (hml_length a) (hml_capacity a) t))"

text \<open>
  \<open>hml_call_function\<close> is declared at the head of builtins_array.c and defined in
  builtins.c, outside the sources. It is a parameter here, the argument \<open>call\<close> of
  \<open>hml_array_reduce\<close>. The callee runs user code, which can reach the array being
  reduced and change it, so \<open>call\<close> takes the array as the callee finds it, the callee
  and the list of arguments, and gives the value returned together with the array
  as the callee leaves it, or the fault that ended the process inside the callee.

  The loop of \<open>hml_array_reduce\<close>, \<open>for (i = start_idx; i < a->length; i++)\<close>. Each
  round reads \<open>a->length\<close> and \<open>a->elements[i]\<close> from the array as the last call left
  it. A callee that makes the array longer at every call keeps the loop running for
  ever: the result is an \<open>option\<close>, and \<open>None\<close> is the loop that does not end. The
  array after the loop is returned with the accumulator.
\<close>

partial_function (option) reduce_loop ::
  "(HmlArray \<Rightarrow> HmlValue \<Rightarrow> HmlValue list \<Rightarrow> error + HmlValue \<times> HmlArray) \<Rightarrow> HmlValue \<Rightarrow>
   HmlArray \<Rightarrow> nat \<Rightarrow> HmlValue \<Rightarrow> (error + HmlValue \<times> HmlArray) option" where
  "reduce_loop call reducer a i acc =
     (if i < hml_length a then
        (case call a reducer [acc, hml_elements a ! i] of
           Inl e \<Rightarrow> Some (Inl e)
         | Inr (new_acc, a') \<Rightarrow> reduce_loop call reducer a' (i + 1) new_acc)
      else Some (Inr (acc, a)))"

definition hml_array_reduce ::
  "(HmlArray \<Rightarrow> HmlValue \<Rightarrow> HmlValue list \<Rightarrow> error + HmlValue \<times> HmlArray) \<Rightarrow> HmlValue \<Rightarrow>
   HmlValue \<Rightarrow> HmlValue \<Rightarrow> (error + HmlValue \<times> HmlArray) option" where
  "hml_array_reduce call arr reducer initial =
     (case hml_checked_array arr of
        None \<Rightarrow> Some (Inl (hml_runtime_error ''reduce() requires array''))
      | Some a \<Rightarrow>
          if hml_length a = 0 then
            (if hml_type initial = HML_VAL_NULL then
               Some (Inl (hml_runtime_error ''reduce() of empty array with no initial value''))
             else Some (Inr (initial, a)))
          else if hml_type initial = HML_VAL_NULL then
            reduce_loop call reducer a 1 (hml_elements a ! 0)
          else reduce_loop call reducer a 0 initial)"

text \<open>
  A well-formed array, its content, and the invariant of a typed array: every slot in
  use holds a value whose tag is the array's \<open>element_type\<close>.
\<close>

definition hml_wf :: "HmlArray \<Rightarrow> bool" where
  "hml_wf a = (hml_length a \<le> hml_capacity a \<and> length (hml_elements a) = hml_capacity a)"

definition hml_live :: "HmlArray \<Rightarrow> HmlValue list" where
  "hml_live a = take (hml_length a) (hml_elements a)"

definition hml_typed_ok :: "HmlArray \<Rightarrow> bool" where
  "hml_typed_ok a = list_all (\<lambda>v. hml_type v = hml_element_type a) (hml_live a)"

text \<open>
  The left fold of the callee over a list of elements, with every call made on the
  same array \<open>a\<close> and stopping at the first fault of the callee: what \<open>reduce\<close> is to
  compute. \<open>leaves_array call f a\<close> says that a call of \<open>f\<close> that returns leaves the
  array \<open>a\<close> as it found it.
\<close>

fun fold_call ::
  "(HmlArray \<Rightarrow> HmlValue \<Rightarrow> HmlValue list \<Rightarrow> error + HmlValue \<times> HmlArray) \<Rightarrow> HmlArray \<Rightarrow>
   HmlValue \<Rightarrow> HmlValue \<Rightarrow> HmlValue list \<Rightarrow> error + HmlValue" where
  "fold_call call a f acc [] = Inr acc"
| "fold_call call a f acc (x # xs) =
     (case call a f [acc, x] of
        Inl e \<Rightarrow> Inl e
      | Inr (acc', a') \<Rightarrow> fold_call call a f acc' xs)"

definition leaves_array ::
  "(HmlArray \<Rightarrow> HmlValue \<Rightarrow> HmlValue list \<Rightarrow> error + HmlValue \<times> HmlArray) \<Rightarrow> HmlValue \<Rightarrow>
   HmlArray \<Rightarrow> bool" where
  "leaves_array call f a = (\<forall>args v a'. call a f args = Inr (v, a') \<longrightarrow> a' = a)"

text \<open>
  The message of an index out of bounds, \<open>Array index N out of bounds (length M)\<close>,
  as both \<open>array_get\<close> and \<open>hml_array_get\<close> format it.
\<close>

definition out_of_bounds_msg :: "int \<Rightarrow> nat \<Rightarrow> string" where
  "out_of_bounds_msg i n =
     ''Array index '' @ dec_int i @ '' out of bounds (length '' @ dec_int (int n) @ '')''"

text \<open>
  For the concrete checks: the empty array typed \<open>i32\<close>; the array value whose buffer
  is exactly a given list; the sum of two \<open>i32\<close> values; three callees that return the
  sum of their two arguments, of which the first leaves the array alone
  (\<open>fn(acc, x) { return acc + x; }\<close>), the second pops it first
  (\<open>fn(acc, x) { xs.pop(); return acc + x; }\<close>) and the third pushes onto it
  (\<open>fn(acc, x) { xs.push(x); return acc + x; }\<close>); and a function value to pass as the
  callee.
\<close>

definition typed_i32_empty :: HmlValue where
  "typed_i32_empty = HmlValue HML_VAL_ARRAY (hml_as_array (Some (HmlArray [] 0 0 HML_VAL_I32)))"

definition hml_array_of :: "HmlValue list \<Rightarrow> HmlValueType \<Rightarrow> HmlValue" where
  "hml_array_of xs t =
     HmlValue HML_VAL_ARRAY (hml_as_array (Some (HmlArray xs (length xs) (length xs) t)))"

definition add_i32 :: "HmlValue \<Rightarrow> HmlValue \<Rightarrow> HmlValue" where
  "add_i32 x y = hml_val_i32 (word_of_int (hml_to_i32_of_i32 x + hml_to_i32_of_i32 y))"

definition call_add ::
  "HmlArray \<Rightarrow> HmlValue \<Rightarrow> HmlValue list \<Rightarrow> error + HmlValue \<times> HmlArray" where
  "call_add a fn args = Inr (add_i32 (args ! 0) (args ! 1), a)"

definition call_add_pop ::
  "HmlArray \<Rightarrow> HmlValue \<Rightarrow> HmlValue list \<Rightarrow> error + HmlValue \<times> HmlArray" where
  "call_add_pop a fn args =
     (case hml_array_pop (HmlValue HML_VAL_ARRAY (hml_as_array (Some a))) of
        Inl e \<Rightarrow> Inl e
      | Inr (v, a') \<Rightarrow> Inr (add_i32 (args ! 0) (args ! 1), a'))"

definition call_add_push ::
  "HmlArray \<Rightarrow> HmlValue \<Rightarrow> HmlValue list \<Rightarrow> error + HmlValue \<times> HmlArray" where
  "call_add_push a fn args =
     (case hml_array_push (HmlValue HML_VAL_ARRAY (hml_as_array (Some a))) (args ! 1) of
        Inl e \<Rightarrow> Inl e
      | Inr a' \<Rightarrow> Inr (add_i32 (args ! 0) (args ! 1), a'))"

definition fn_value :: HmlValue where
  "fn_value = HmlValue HML_VAL_FUNCTION (hml_as_other 0)"

section \<open>Theorems: the inference lattice\<close>

lemmas infer_ctor_defs =
  infer_unknown_def infer_i32_def infer_i64_def infer_f64_def infer_bool_def
  infer_string_def infer_null_def infer_numeric_def infer_integer_def

lemma infer_meet_same: "infer_meet t t = t"
  by (simp add: infer_meet_def)

lemma infer_meet_kind_comm: "kind (infer_meet a b) = kind (infer_meet b a)"
  by (cases "kind a"; cases "kind b";
      simp add: infer_meet_def infer_is_integer_def infer_is_numeric_def infer_ctor_defs)

text \<open>
  Claim C10. The meet is idempotent, and commutative on kinds: \<open>infer_meet t t = t\<close>
  for every inferred type, and the kinds of \<open>infer_meet a b\<close> and \<open>infer_meet b a\<close>
  agree for every pair.
\<close>

theorem infer_meet_idem_comm:
  "infer_meet t t = t \<and> kind (infer_meet a b) = kind (infer_meet b a)"
  by (simp add: infer_meet_same infer_meet_kind_comm)

theorem infer_meet_idem_comm_witness:
  "infer_meet (InferredType INFER_ARRAY (Some infer_i32)) (InferredType INFER_ARRAY (Some infer_i32))
     = InferredType INFER_ARRAY (Some infer_i32) \<and>
   kind (infer_meet infer_i32 infer_f64) = INFER_NUMERIC \<and>
   kind (infer_meet infer_f64 infer_i32) = INFER_NUMERIC"
  using infer_meet_idem_comm
    [of "InferredType INFER_ARRAY (Some infer_i32)" infer_i32 infer_f64]
  by (simp add: infer_meet_def infer_is_integer_def infer_is_numeric_def infer_ctor_defs)

section \<open>Theorems: number literals\<close>

text \<open>
  Claim C6. A NUMBER literal with \<open>is_float\<close> set infers to F64; otherwise it infers to
  I32 when its integer value lies in the closed range from \<open>-2^31\<close> to \<open>2^31 - 1\<close>,
  and to I64 for every value outside it. The context is returned as it was.
\<close>

theorem infer_expr_number:
  "infer_expr ctx (EXPR_NUMBER v is_float) =
     ((if is_float then infer_f64
       else if - (2 ^ 31) \<le> v \<and> v \<le> 2 ^ 31 - 1 then infer_i32
       else infer_i64), ctx)"
  by simp

theorem infer_expr_number_witness:
  "infer_expr type_infer_new (EXPR_NUMBER 2147483647 False) = (infer_i32, type_infer_new) \<and>
   infer_expr type_infer_new (EXPR_NUMBER (- 2147483648) False) = (infer_i32, type_infer_new) \<and>
   infer_expr type_infer_new (EXPR_NUMBER 2147483648 False) = (infer_i64, type_infer_new) \<and>
   infer_expr type_infer_new (EXPR_NUMBER (- 2147483649) False) = (infer_i64, type_infer_new) \<and>
   infer_expr type_infer_new (EXPR_NUMBER 0 True) = (infer_f64, type_infer_new)"
  using infer_expr_number[of type_infer_new 2147483647 False]
    infer_expr_number[of type_infer_new "- 2147483648" False]
    infer_expr_number[of type_infer_new 2147483648 False]
    infer_expr_number[of type_infer_new "- 2147483649" False]
    infer_expr_number[of type_infer_new 0 True]
  by simp

text \<open>
  A literal built by \<open>expr_number_int\<close> holds a C \<open>int\<close>, so it always infers to I32;
  the I64 branch is reached only by nodes whose \<open>int_value\<close> was stored otherwise.
\<close>

lemma infer_expr_number_int: "fst (infer_expr ctx (expr_number_int v)) = infer_i32"
proof -
  have "- (2 ^ 31) \<le> sint v" "sint v < 2 ^ 31"
    using sint_ge[of v] sint_lt[of v] by simp_all
  then show ?thesis by (simp add: expr_number_int_def)
qed

section \<open>Theorems: refinement of a binding by an assignment\<close>

lemma refine_bindings_None:
  "lookup_bindings bs n = None \<Longrightarrow> refine_bindings bs n t = None"
  by (induction bs) (simp_all split: if_splits)

lemma refine_bindings_Some:
  "lookup_bindings bs n = Some old \<Longrightarrow>
   \<exists>bs'. refine_bindings bs n t = Some (bs', refines old t) \<and>
         lookup_bindings bs' n = Some (if refines old t then t else old) \<and>
         (\<forall>m. m \<noteq> n \<longrightarrow> lookup_bindings bs' m = lookup_bindings bs m)"
proof (induction bs)
  case Nil
  then show ?case by simp
next
  case (Cons b bs)
  show ?case
  proof (cases "tb_name b = n")
    case True
    with Cons.prems have "tb_type b = old" by simp
    with True show ?thesis by (cases b) (auto simp: refines_def)
  next
    case False
    with Cons.prems have "lookup_bindings bs n = Some old" by simp
    from Cons.IH[OF this] False show ?thesis by auto
  qed
qed

lemma refine_env_unbound:
  "\<not> bound_env env n \<Longrightarrow> refine_env env n t = (env, False)"
proof (induction env n t rule: refine_env.induct)
  case (1 name t)
  then show ?case by simp
next
  case (2 bs p name t)
  from "2.prems" have lb: "lookup_bindings bs name = None" and nb: "\<not> bound_env p name"
    by (auto split: option.splits)
  have rb: "refine_bindings bs name t = None" by (rule refine_bindings_None[OF lb])
  from "2.IH"[OF rb nb] rb show ?case by simp
qed

lemma refine_env_bound:
  "bound_env env n \<Longrightarrow>
   \<exists>env'. refine_env env n t = (env', refines (lookup_env env n) t) \<and>
          lookup_env env' n = (if refines (lookup_env env n) t then t else lookup_env env n) \<and>
          (\<forall>m. m \<noteq> n \<longrightarrow> lookup_env env' m = lookup_env env m) \<and>
          (env' = None) = (env = None)"
proof (induction env n t rule: refine_env.induct)
  case (1 name t)
  then show ?case by simp
next
  case (2 bs p name t)
  show ?case
  proof (cases "lookup_bindings bs name")
    case None
    have rb: "refine_bindings bs name t = None" by (rule refine_bindings_None[OF None])
    from "2.prems" None have b: "bound_env p name" by simp
    from "2.IH"[OF rb b] obtain p' where
      r: "refine_env p name t = (p', refines (lookup_env p name) t)" and
      l: "lookup_env p' name = (if refines (lookup_env p name) t then t else lookup_env p name)" and
      o: "\<forall>m. m \<noteq> name \<longrightarrow> lookup_env p' m = lookup_env p m"
      by blast
    have "refine_env (Some (TypeEnv bs p)) name t =
            (Some (TypeEnv bs p'), refines (lookup_env (Some (TypeEnv bs p)) name) t)"
      using rb r None by simp
    moreover have "lookup_env (Some (TypeEnv bs p')) name =
            (if refines (lookup_env (Some (TypeEnv bs p)) name) t then t
             else lookup_env (Some (TypeEnv bs p)) name)"
      using l None by simp
    moreover have "\<forall>m. m \<noteq> name \<longrightarrow>
            lookup_env (Some (TypeEnv bs p')) m = lookup_env (Some (TypeEnv bs p)) m"
      using o by (simp split: option.splits)
    ultimately show ?thesis by blast
  next
    case (Some old)
    from refine_bindings_Some[OF Some, of t] obtain bs' where
      r: "refine_bindings bs name t = Some (bs', refines old t)" and
      l: "lookup_bindings bs' name = Some (if refines old t then t else old)" and
      o: "\<forall>m. m \<noteq> name \<longrightarrow> lookup_bindings bs' m = lookup_bindings bs m"
      by blast
    have "refine_env (Some (TypeEnv bs p)) name t =
            (Some (TypeEnv bs' p), refines (lookup_env (Some (TypeEnv bs p)) name) t)"
      using r Some by simp
    moreover have "lookup_env (Some (TypeEnv bs' p)) name =
            (if refines (lookup_env (Some (TypeEnv bs p)) name) t then t
             else lookup_env (Some (TypeEnv bs p)) name)"
      using l Some by simp
    moreover have "\<forall>m. m \<noteq> name \<longrightarrow>
            lookup_env (Some (TypeEnv bs' p)) m = lookup_env (Some (TypeEnv bs p)) m"
      using o by simp
    ultimately show ?thesis by blast
  qed
qed

lemma refine_env_None: "(fst (refine_env env n t) = None) = (env = None)"
proof (cases "bound_env env n")
  case True
  from refine_env_bound[OF True, of t] show ?thesis by auto
next
  case False
  then show ?thesis by (simp add: refine_env_unbound)
qed

lemma type_env_refine_None:
  "(current_env (type_env_refine ctx n t) = None) = (current_env ctx = None)"
  using refine_env_None[of "current_env ctx" n t]
  by (auto simp: type_env_refine_def split: prod.splits)

lemma infer_expr_env_None:
  "(current_env (snd (infer_expr ctx e)) = None) = (current_env ctx = None)"
  by (induction ctx e rule: infer_expr.induct)
     (auto simp: type_env_refine_None split: prod.splits option.splits Expr.splits)




section \<open>Theorems: declarations with a type annotation\<close>

lemma lookup_bind:
  assumes "current_env ctx \<noteq> None"
  shows "type_env_lookup (type_env_bind ctx name t) name = t"
proof -
  from assms obtain bs p where "current_env ctx = Some (TypeEnv bs p)"
    by (cases "current_env ctx") (auto intro: TypeEnv.exhaust)
  then show ?thesis by (simp add: type_env_lookup_def type_env_bind_def)
qed

lemma init_env_None:
  assumes "(case val of None \<Rightarrow> (infer_unknown, ctx) | Some e \<Rightarrow> infer_expr ctx e) = (init_type, ctx1)"
    and "current_env ctx \<noteq> None"
  shows "current_env ctx1 \<noteq> None"
proof (cases val)
  case None
  with assms show ?thesis by simp
next
  case (Some e)
  with assms(1) have "ctx1 = snd (infer_expr ctx e)" by simp
  with assms(2) show ?thesis by (simp add: infer_expr_env_None)
qed

lemma annotation_type_cases:
  "annotation_type ty init_type =
     (if type_kind ty = TYPE_I32 then infer_i32
      else if type_kind ty = TYPE_I64 then infer_i64
      else if type_kind ty = TYPE_F32 \<or> type_kind ty = TYPE_F64 then infer_f64
      else if type_kind ty = TYPE_BOOL then infer_bool
      else if type_kind ty = TYPE_STRING then infer_string
      else init_type)"
  by (cases "type_kind ty") (simp_all add: annotation_type_def)

lemma infer_let_annotated:
  assumes "current_env ctx \<noteq> None"
  shows "type_env_lookup (infer_stmt ctx (STMT_LET name (Some ty) val)) name =
     annotation_type ty (case val of None \<Rightarrow> infer_unknown | Some e \<Rightarrow> fst (infer_expr ctx e))"
proof -
  obtain init_type ctx1 where
    i: "(case val of None \<Rightarrow> (infer_unknown, ctx) | Some e \<Rightarrow> infer_expr ctx e) = (init_type, ctx1)"
    by (cases "case val of None \<Rightarrow> (infer_unknown, ctx) | Some e \<Rightarrow> infer_expr ctx e")
  have env: "current_env ctx1 \<noteq> None" by (rule init_env_None[OF i assms])
  have it: "init_type = (case val of None \<Rightarrow> infer_unknown | Some e \<Rightarrow> fst (infer_expr ctx e))"
    using i by (cases val) auto
  have "infer_stmt ctx (STMT_LET name (Some ty) val) =
          type_env_bind ctx1 name (annotation_type ty init_type)"
    using i by simp
  then show ?thesis using lookup_bind[OF env] it by simp
qed

lemma infer_const_annotated:
  assumes "current_env ctx \<noteq> None"
  shows "type_env_lookup (infer_stmt ctx (STMT_CONST name (Some ty) val)) name =
     annotation_type ty (case val of None \<Rightarrow> infer_unknown | Some e \<Rightarrow> fst (infer_expr ctx e))"
proof -
  obtain init_type ctx1 where
    i: "(case val of None \<Rightarrow> (infer_unknown, ctx) | Some e \<Rightarrow> infer_expr ctx e) = (init_type, ctx1)"
    by (cases "case val of None \<Rightarrow> (infer_unknown, ctx) | Some e \<Rightarrow> infer_expr ctx e")
  have env: "current_env ctx1 \<noteq> None" by (rule init_env_None[OF i assms])
  have it: "init_type = (case val of None \<Rightarrow> infer_unknown | Some e \<Rightarrow> fst (infer_expr ctx e))"
    using i by (cases val) auto
  have "infer_stmt ctx (STMT_CONST name (Some ty) val) =
          type_env_bind ctx1 name (annotation_type ty init_type)"
    using i by simp
  then show ?thesis using lookup_bind[OF env] it by simp
qed

text \<open>
  Claim C5, as the code has it. After a LET or a CONST with a type annotation, inferred
  in a context that has a current scope, the declared name is bound as follows: to I32,
  I64, F64, BOOL or STRING when the annotation is of that kind, whatever the initialiser
  infers to; to F64 when the annotation is F32 (the lattice has no F32); and, for an
  annotation of any other kind, to the type the initialiser infers to (UNKNOWN when
  there is no initialiser).
\<close>

theorem infer_decl_annotated:
  assumes "current_env ctx \<noteq> None"
    and "decl = STMT_LET name (Some ty) val \<or> decl = STMT_CONST name (Some ty) val"
  shows "type_env_lookup (infer_stmt ctx decl) name =
     (if type_kind ty = TYPE_I32 then infer_i32
      else if type_kind ty = TYPE_I64 then infer_i64
      else if type_kind ty = TYPE_F32 \<or> type_kind ty = TYPE_F64 then infer_f64
      else if type_kind ty = TYPE_BOOL then infer_bool
      else if type_kind ty = TYPE_STRING then infer_string
      else (case val of None \<Rightarrow> infer_unknown | Some e \<Rightarrow> fst (infer_expr ctx e)))"
  using assms(2) infer_let_annotated[OF assms(1), of name ty val]
    infer_const_annotated[OF assms(1), of name ty val]
  by (auto simp only: annotation_type_cases)

theorem infer_decl_annotated_witness:
  "current_env type_infer_new \<noteq> None \<and>
   type_env_lookup (infer_stmt type_infer_new
      (STMT_LET ''x'' (Some (Type TYPE_STRING)) (Some (EXPR_NUMBER 1 False)))) ''x'' = infer_string \<and>
   type_env_lookup (infer_stmt type_infer_new
      (STMT_CONST ''x'' (Some (Type TYPE_F32)) (Some (EXPR_NUMBER 1 False)))) ''x'' = infer_f64"
proof -
  have h: "current_env type_infer_new \<noteq> None" by (simp add: type_infer_new_def)
  from infer_decl_annotated[OF h disjI1[OF refl],
      of "''x''" "Type TYPE_STRING" "Some (EXPR_NUMBER 1 False)"]
    infer_decl_annotated[OF h disjI2[OF refl],
      of "''x''" "Type TYPE_F32" "Some (EXPR_NUMBER 1 False)"]
    h
  show ?thesis by simp
qed

text \<open>
  The claim as stated, refuted: under the same annotation \<open>i8\<close> the binding follows the
  initialiser (I32 for \<open>1\<close>, STRING for \<open>"s"\<close>), so it is not a function of the
  annotation alone; and an \<open>f32\<close> annotation binds F64, the type of an \<open>f64\<close> one.
\<close>

theorem infer_decl_annotated_counterexample:
  "type_env_lookup (infer_stmt type_infer_new
      (STMT_LET ''x'' (Some (Type TYPE_I8)) (Some (EXPR_NUMBER 1 False)))) ''x'' = infer_i32 \<and>
   type_env_lookup (infer_stmt type_infer_new
      (STMT_LET ''x'' (Some (Type TYPE_I8)) (Some (EXPR_STRING ''s'')))) ''x'' = infer_string \<and>
   infer_i32 \<noteq> infer_string \<and>
   type_env_lookup (infer_stmt type_infer_new
      (STMT_CONST ''x'' (Some (Type TYPE_F32)) None)) ''x'' =
   type_env_lookup (infer_stmt type_infer_new
      (STMT_CONST ''x'' (Some (Type TYPE_F64)) None)) ''x''"
  by (simp add: type_infer_new_def type_env_bind_def type_env_lookup_def annotation_type_def
      infer_ctor_defs)

section \<open>Theorems: environments\<close>

lemma find_name_None: "(find_name es n = None) = (n \<notin> scope_names es)"
  by (induction es) (auto simp: scope_names_def)

lemma find_name_Some:
  "(find_name es n = Some i) =
     (i < length es \<and> b_name (es ! i) = n \<and> (\<forall>j<i. b_name (es ! j) \<noteq> n))"
proof (induction es arbitrary: i)
  case Nil
  then show ?case by simp
next
  case (Cons b bs)
  show ?case
  proof (cases "b_name b = n")
    case True
    then show ?thesis by (cases i) auto
  next
    case False
    show ?thesis
    proof (cases i)
      case 0
      with False show ?thesis by auto
    next
      case (Suc i')
      have "(\<forall>j<Suc i'. b_name ((b # bs) ! j) \<noteq> n) = (\<forall>j<i'. b_name (bs ! j) \<noteq> n)"
        using False by (auto simp: less_Suc_eq_0_disj)
      with False Suc Cons.IH[of i'] show ?thesis by auto
    qed
  qed
qed

lemma env_set_parents_notfound:
  "\<forall>s \<in> set (chain_from p). n \<notin> scope_names s \<Longrightarrow> env_set_parents p n v = None"
  by (induction p n v rule: env_set_parents.induct) (auto simp: find_name_None[symmetric])

lemma env_set_parents_found:
  "k < length (chain_from p) \<Longrightarrow> \<forall>j<k. n \<notin> scope_names (chain_from p ! j) \<Longrightarrow>
   find_name (chain_from p ! k) n = Some i \<Longrightarrow>
   (b_is_const (chain_from p ! k ! i) \<noteq> 0 \<longrightarrow>
      env_set_parents p n v = Some (Inl (const_error n))) \<and>
   (b_is_const (chain_from p ! k ! i) = 0 \<longrightarrow>
      (\<exists>p'. env_set_parents p n v = Some (Inr p') \<and>
            chain_from p' = (chain_from p)[k := set_value (chain_from p ! k) i v]))"
proof (induction p n v arbitrary: k rule: env_set_parents.induct)
  case (1 name v)
  then show ?case by simp
next
  case (2 es cap p name v)
  show ?case
  proof (cases k)
    case 0
    with "2.prems" have "find_name es name = Some i" by simp
    with 0 show ?thesis by simp
  next
    case (Suc k')
    from "2.prems"(2) Suc have "name \<notin> scope_names es" by auto
    then have fn: "find_name es name = None" by (simp add: find_name_None)
    from "2.prems" Suc have a: "k' < length (chain_from p)"
      and b: "\<forall>j<k'. name \<notin> scope_names (chain_from p ! j)"
      and c: "find_name (chain_from p ! k') name = Some i"
      by auto
    from "2.IH"[OF fn a b c] fn Suc show ?thesis by auto
  qed
qed

lemma chain_unfold: "chain env = entries env # chain_from (env_parent env)"
  by (cases env) (simp add: chain_def)

lemma entries_append_binding: "entries (append_binding env b) = entries env @ [b]"
  by (simp add: append_binding_def env_grow_def Let_def)

lemma parent_append_binding: "env_parent (append_binding env b) = env_parent env"
  by (simp add: append_binding_def env_grow_def Let_def)

lemma env_set_current:
  assumes "find_name (entries env) n = Some i"
  shows "(b_is_const (entries env ! i) \<noteq> 0 \<longrightarrow> env_set env n v = Inl (const_error n)) \<and>
         (b_is_const (entries env ! i) = 0 \<longrightarrow>
            (\<exists>env'. env_set env n v = Inr env' \<and>
                   chain env' = (chain env)[0 := set_value (entries env) i v]))"
  using assms by (simp add: env_set_def chain_unfold)

lemma env_set_parent:
  assumes "find_name (entries env) n = None"
    and "k < length (chain_from (env_parent env))"
    and "\<forall>j<k. n \<notin> scope_names (chain_from (env_parent env) ! j)"
    and "find_name (chain_from (env_parent env) ! k) n = Some i"
  shows "(b_is_const (chain_from (env_parent env) ! k ! i) \<noteq> 0 \<longrightarrow>
            env_set env n v = Inl (const_error n)) \<and>
         (b_is_const (chain_from (env_parent env) ! k ! i) = 0 \<longrightarrow>
            (\<exists>env'. env_set env n v = Inr env' \<and>
                   chain env' = (chain env)[Suc k := set_value (chain_from (env_parent env) ! k) i v]))"
proof -
  note f = env_set_parents_found[OF assms(2,3,4), of v]
  show ?thesis
  proof (intro conjI impI)
    assume "b_is_const (chain_from (env_parent env) ! k ! i) \<noteq> 0"
    with f have "env_set_parents (env_parent env) n v = Some (Inl (const_error n))" by simp
    with assms(1) show "env_set env n v = Inl (const_error n)" by (simp add: env_set_def)
  next
    assume "b_is_const (chain_from (env_parent env) ! k ! i) = 0"
    with f obtain p' where
      p: "env_set_parents (env_parent env) n v = Some (Inr p')" and
      c: "chain_from p' = (chain_from (env_parent env))[k := set_value (chain_from (env_parent env) ! k) i v]"
      by auto
    from p assms(1) have "env_set env n v = Inr (Environment (entries env) (env_capacity env) p')"
      by (simp add: env_set_def)
    moreover from c have "chain (Environment (entries env) (env_capacity env) p') =
        (chain env)[Suc k := set_value (chain_from (env_parent env) ! k) i v]"
      by (simp add: chain_unfold)
    ultimately show "\<exists>env'. env_set env n v = Inr env' \<and>
        chain env' = (chain env)[Suc k := set_value (chain_from (env_parent env) ! k) i v]"
      by blast
  qed
qed

lemma env_set_found:
  assumes "k < length (chain env)"
    and "\<forall>j<k. n \<notin> scope_names (chain env ! j)"
    and "find_name (chain env ! k) n = Some i"
  shows "(b_is_const (chain env ! k ! i) \<noteq> 0 \<longrightarrow> env_set env n v = Inl (const_error n)) \<and>
         (b_is_const (chain env ! k ! i) = 0 \<longrightarrow>
            (\<exists>env'. env_set env n v = Inr env' \<and>
                   chain env' = (chain env)[k := set_value (chain env ! k) i v]))"
proof (cases k)
  case 0
  with assms(3) have "find_name (entries env) n = Some i" by (simp add: chain_unfold)
  from env_set_current[OF this, of v] 0 show ?thesis by (simp add: chain_unfold)
next
  case (Suc k')
  from assms(2) Suc have "n \<notin> scope_names (entries env)" by (auto simp: chain_unfold)
  then have a: "find_name (entries env) n = None" by (simp add: find_name_None)
  from assms Suc have b: "k' < length (chain_from (env_parent env))"
    and c: "\<forall>j<k'. n \<notin> scope_names (chain_from (env_parent env) ! j)"
    and d: "find_name (chain_from (env_parent env) ! k') n = Some i"
    by (auto simp: chain_unfold)
  from env_set_parent[OF a b c d, of v] Suc show ?thesis by (simp add: chain_unfold)
qed

lemma env_set_notfound:
  assumes "\<forall>s \<in> set (chain env). n \<notin> scope_names s"
  shows "\<exists>env'. env_set env n v = Inr env' \<and>
               chain env' = (entries env @ [Binding n v 0]) # tl (chain env)"
proof -
  from assms have a: "find_name (entries env) n = None"
    by (simp add: chain_unfold find_name_None)
  from assms have "\<forall>s \<in> set (chain_from (env_parent env)). n \<notin> scope_names s"
    by (simp add: chain_unfold)
  then have b: "env_set_parents (env_parent env) n v = None"
    by (rule env_set_parents_notfound)
  from a b have "env_set env n v = Inr (append_binding env (Binding n v 0))"
    by (simp add: env_set_def)
  moreover have "chain (append_binding env (Binding n v 0)) =
      (entries env @ [Binding n v 0]) # tl (chain env)"
    by (simp add: chain_unfold entries_append_binding parent_append_binding)
  ultimately show ?thesis by blast
qed

text \<open>
  Claim C1. \<open>env_set env n v\<close> searches the current scope, then each enclosing one.
  Let scope \<open>k\<close> of the chain be the first that binds \<open>n\<close>, and \<open>i\<close> the first index
  of \<open>n\<close> in it. If that binding is const the call fails with
  \<open>Cannot assign to const variable 'n'\<close> (after the prefix \<open>Runtime error: \<close>) and exit
  status 1; otherwise it returns, and the chain is the old one with \<open>v\<close> written at
  index \<open>i\<close> of scope \<open>k\<close> and nothing else changed. If no scope of the chain binds
  \<open>n\<close>, the call returns and the current scope has the new entry \<open>(n, v)\<close>, not const,
  appended; the enclosing scopes are unchanged.
\<close>

theorem env_set_writes_innermost:
  "(\<forall>k i. k < length (chain env) \<and> (\<forall>j<k. n \<notin> scope_names (chain env ! j)) \<and>
          i < length (chain env ! k) \<and> b_name (chain env ! k ! i) = n \<and>
          (\<forall>j<i. b_name (chain env ! k ! j) \<noteq> n) \<longrightarrow>
      (b_is_const (chain env ! k ! i) \<noteq> 0 \<longrightarrow>
         env_set env n v =
           Inl (Exit (''Runtime error: Cannot assign to const variable '' @ quoted n @ newline) 1)) \<and>
      (b_is_const (chain env ! k ! i) = 0 \<longrightarrow>
         (\<exists>env'. env_set env n v = Inr env' \<and>
                chain env' = (chain env)[k := (chain env ! k)[i := Binding n v 0]]))) \<and>
   ((\<forall>s \<in> set (chain env). n \<notin> scope_names s) \<longrightarrow>
      (\<exists>env'. env_set env n v = Inr env' \<and>
             chain env' = (entries env @ [Binding n v 0]) # tl (chain env)))"
proof (intro conjI allI impI)
  fix k i
  assume h: "k < length (chain env) \<and> (\<forall>j<k. n \<notin> scope_names (chain env ! j)) \<and>
          i < length (chain env ! k) \<and> b_name (chain env ! k ! i) = n \<and>
          (\<forall>j<i. b_name (chain env ! k ! j) \<noteq> n)"
  then have f: "find_name (chain env ! k) n = Some i" by (simp add: find_name_Some)
  note r = env_set_found[OF _ _ f, of v]
  {
    assume "b_is_const (chain env ! k ! i) \<noteq> 0"
    with r h show "env_set env n v =
       Inl (Exit (''Runtime error: Cannot assign to const variable '' @ quoted n @ newline) 1)"
      by (simp add: const_error_def)
  }
  {
    assume c: "b_is_const (chain env ! k ! i) = 0"
    from h c have "set_value (chain env ! k) i v = (chain env ! k)[i := Binding n v 0]"
      by (simp add: set_value_def)
    with r h c show "\<exists>env'. env_set env n v = Inr env' \<and>
                chain env' = (chain env)[k := (chain env ! k)[i := Binding n v 0]]"
      by simp
  }
next
  assume "\<forall>s \<in> set (chain env). n \<notin> scope_names s"
  then show "\<exists>env'. env_set env n v = Inr env' \<and>
             chain env' = (entries env @ [Binding n v 0]) # tl (chain env)"
    by (rule env_set_notfound)
qed

text \<open>
  Claim C7. \<open>env_define env n v c\<close> fails with \<open>Variable 'n' already defined in this
  scope\<close> (after the prefix \<open>Runtime error: \<close>) and exit status 1 if and only if the
  current scope itself binds \<open>n\<close>; the enclosing scopes play no part. When it does not
  fail it appends \<open>(n, v, c)\<close> to the current scope and leaves the parent as it was.
\<close>

theorem env_define_current_scope:
  "(env_define env n v c =
      Inl (Exit (''Runtime error: Variable '' @ quoted n @ '' already defined in this scope'' @ newline) 1))
     = (n \<in> scope_names (entries env)) \<and>
   (n \<notin> scope_names (entries env) \<longrightarrow>
      (\<exists>env'. env_define env n v c = Inr env' \<and>
             entries env' = entries env @ [Binding n v c] \<and>
             env_parent env' = env_parent env))"
proof (cases "find_name (entries env) n")
  case None
  then have "n \<notin> scope_names (entries env)" by (simp add: find_name_None)
  with None show ?thesis
    by (simp add: env_define_def entries_append_binding parent_append_binding)
next
  case (Some i)
  then have "n \<in> scope_names (entries env)"
    using find_name_None[of "entries env" n] by auto
  with Some show ?thesis by (simp add: env_define_def)
qed

lemma chain_env_example:
  "chain env_example = [[Binding ''a'' val_null 0], [Binding ''k'' val_null 1, Binding ''x'' val_null 0]]"
  by (simp add: env_example_def chain_def)

theorem env_set_writes_innermost_witness:
  "(\<exists>env'. env_set env_example ''x'' (val_i32 5) = Inr env' \<and>
      chain env' = [[Binding ''a'' val_null 0],
                    [Binding ''k'' val_null 1, Binding ''x'' (val_i32 5) 0]]) \<and>
   env_set env_example ''k'' (val_i32 5) =
     Inl (Exit (''Runtime error: Cannot assign to const variable '' @ quoted ''k'' @ newline) 1) \<and>
   (\<exists>env'. env_set env_example ''z'' (val_i32 5) = Inr env' \<and>
      chain env' = [[Binding ''a'' val_null 0, Binding ''z'' (val_i32 5) 0],
                    [Binding ''k'' val_null 1, Binding ''x'' val_null 0]])"
proof -
  have x: "1 < length (chain env_example) \<and>
           (\<forall>j<1. ''x'' \<notin> scope_names (chain env_example ! j)) \<and>
           1 < length (chain env_example ! 1) \<and> b_name (chain env_example ! 1 ! 1) = ''x'' \<and>
           (\<forall>j<1. b_name (chain env_example ! 1 ! j) \<noteq> ''x'')"
    by (simp add: chain_env_example scope_names_def)
  have xc: "b_is_const (chain env_example ! 1 ! 1) = 0"
    by (simp add: chain_env_example)
  have k: "1 < length (chain env_example) \<and>
           (\<forall>j<1. ''k'' \<notin> scope_names (chain env_example ! j)) \<and>
           0 < length (chain env_example ! 1) \<and> b_name (chain env_example ! 1 ! 0) = ''k'' \<and>
           (\<forall>j<0. b_name (chain env_example ! 1 ! j) \<noteq> ''k'')"
    by (simp add: chain_env_example scope_names_def)
  have kc: "b_is_const (chain env_example ! 1 ! 0) \<noteq> 0"
    by (simp add: chain_env_example)
  have z: "\<forall>s \<in> set (chain env_example). ''z'' \<notin> scope_names s"
    by (simp add: chain_env_example scope_names_def)
  from env_set_writes_innermost[of env_example "''x''" "val_i32 5"] x xc
  have "\<exists>env'. env_set env_example ''x'' (val_i32 5) = Inr env' \<and>
      chain env' = (chain env_example)[1 := (chain env_example ! 1)[1 := Binding ''x'' (val_i32 5) 0]]"
    by blast
  then have 1: "\<exists>env'. env_set env_example ''x'' (val_i32 5) = Inr env' \<and>
      chain env' = [[Binding ''a'' val_null 0],
                    [Binding ''k'' val_null 1, Binding ''x'' (val_i32 5) 0]]"
    by (simp add: chain_env_example)
  from env_set_writes_innermost[of env_example "''k''" "val_i32 5"] k kc
  have 2: "env_set env_example ''k'' (val_i32 5) =
     Inl (Exit (''Runtime error: Cannot assign to const variable '' @ quoted ''k'' @ newline) 1)"
    by blast
  from env_set_writes_innermost[of env_example "''z''" "val_i32 5"] z
  have "\<exists>env'. env_set env_example ''z'' (val_i32 5) = Inr env' \<and>
      chain env' = (entries env_example @ [Binding ''z'' (val_i32 5) 0]) # tl (chain env_example)"
    by blast
  then have 3: "\<exists>env'. env_set env_example ''z'' (val_i32 5) = Inr env' \<and>
      chain env' = [[Binding ''a'' val_null 0, Binding ''z'' (val_i32 5) 0],
                    [Binding ''k'' val_null 1, Binding ''x'' val_null 0]]"
    by (simp add: chain_env_example) (simp add: env_example_def)
  from 1 2 3 show ?thesis by blast
qed

theorem env_define_current_scope_witness:
  "''a'' \<in> scope_names (entries env_example) \<and>
   env_define env_example ''a'' (val_i32 5) 0 =
      Inl (Exit (''Runtime error: Variable '' @ quoted ''a'' @ '' already defined in this scope'' @ newline) 1) \<and>
   ''k'' \<notin> scope_names (entries env_example) \<and>
   (\<exists>env'. env_define env_example ''k'' (val_i32 5) 1 = Inr env' \<and>
          entries env' = [Binding ''a'' val_null 0, Binding ''k'' (val_i32 5) 1] \<and>
          env_parent env' = env_parent env_example)"
proof -
  have a: "''a'' \<in> scope_names (entries env_example)"
    by (simp add: env_example_def scope_names_def)
  have k: "''k'' \<notin> scope_names (entries env_example)"
    by (simp add: env_example_def scope_names_def)
  have e: "entries env_example @ [Binding ''k'' (val_i32 5) 1] =
           [Binding ''a'' val_null 0, Binding ''k'' (val_i32 5) 1]"
    by (simp add: env_example_def)
  from env_define_current_scope[of env_example "''a''" "val_i32 5" 0] a
  have 1: "env_define env_example ''a'' (val_i32 5) 0 =
      Inl (Exit (''Runtime error: Variable '' @ quoted ''a'' @ '' already defined in this scope'' @ newline) 1)"
    by blast
  from env_define_current_scope[of env_example "''k''" "val_i32 5" 1] k e
  have 2: "\<exists>env'. env_define env_example ''k'' (val_i32 5) 1 = Inr env' \<and>
          entries env' = [Binding ''a'' val_null 0, Binding ''k'' (val_i32 5) 1] \<and>
          env_parent env' = env_parent env_example"
    by auto
  from a k 1 2 show ?thesis by blast
qed

section \<open>Theorems: the loops of the runtime arrays\<close>

lemma shift_left_loop_length [simp]: "length (shift_left_loop es i n) = length es"
  by (induction es i n rule: shift_left_loop.induct) (subst shift_left_loop.simps, simp)

lemma shift_left_loop_nth:
  "n \<le> length es \<Longrightarrow> j < length es \<Longrightarrow>
   shift_left_loop es i n ! j = (if i \<le> j \<and> j < n - 1 then es ! (j + 1) else es ! j)"
proof (induction es i n arbitrary: j rule: shift_left_loop.induct)
  case (1 es i n)
  show ?case
  proof (cases "i < n - 1")
    case True
    let ?es = "es[i := es ! (i + 1)]"
    from "1.prems" have a: "n \<le> length ?es" and b: "j < length ?es" by simp_all
    from "1.IH"[OF True a b]
    have "shift_left_loop ?es (i + 1) n ! j =
            (if i + 1 \<le> j \<and> j < n - 1 then ?es ! (j + 1) else ?es ! j)" .
    moreover have "shift_left_loop es i n = shift_left_loop ?es (i + 1) n"
      using True by (subst shift_left_loop.simps) simp
    ultimately show ?thesis using True "1.prems" by (auto simp: nth_list_update)
  next
    case False
    then have "shift_left_loop es i n = es" by (subst shift_left_loop.simps) simp
    with False show ?thesis by auto
  qed
qed

lemma shift_left_loop_take:
  assumes "0 < n" and "n \<le> length es"
  shows "take (n - 1) (shift_left_loop es 0 n) = tl (take n es)"
proof (rule nth_equalityI)
  show "length (take (n - 1) (shift_left_loop es 0 n)) = length (tl (take n es))"
    using assms by simp
next
  fix j assume "j < length (take (n - 1) (shift_left_loop es 0 n))"
  with assms have j: "j < n - 1" by simp
  with assms have "shift_left_loop es 0 n ! j = es ! (j + 1)"
    by (simp add: shift_left_loop_nth)
  moreover from j assms have "tl (take n es) ! j = es ! (j + 1)"
    by (simp add: nth_tl)
  ultimately show "take (n - 1) (shift_left_loop es 0 n) ! j = tl (take n es) ! j"
    using j by simp
qed

lemma shift_right_loop_length [simp]: "length (shift_right_loop es i lo) = length es"
  by (induction es i lo rule: shift_right_loop.induct) (subst shift_right_loop.simps, simp)

lemma shift_right_loop_nth:
  "i < length es \<Longrightarrow> j < length es \<Longrightarrow>
   shift_right_loop es i lo ! j = (if lo < j \<and> j \<le> i then es ! (j - 1) else es ! j)"
proof (induction es i lo arbitrary: j rule: shift_right_loop.induct)
  case (1 es i lo)
  show ?case
  proof (cases "i > lo")
    case True
    let ?es = "es[i := es ! (i - 1)]"
    from "1.prems" have a: "i - 1 < length ?es" and b: "j < length ?es" by simp_all
    from "1.IH"[OF True a b]
    have "shift_right_loop ?es (i - 1) lo ! j =
            (if lo < j \<and> j \<le> i - 1 then ?es ! (j - 1) else ?es ! j)" .
    moreover have "shift_right_loop es i lo = shift_right_loop ?es (i - 1) lo"
      using True by (subst shift_right_loop.simps) simp
    ultimately show ?thesis using True "1.prems" by (auto simp: nth_list_update)
  next
    case False
    then have "shift_right_loop es i lo = es" by (subst shift_right_loop.simps) simp
    with False show ?thesis by auto
  qed
qed

lemma shift_right_insert_take:
  assumes "n < length es" and "k \<le> n"
  shows "take (Suc n) ((shift_right_loop es n k)[k := v]) =
         take k (take n es) @ v # drop k (take n es)"
proof (rule nth_equalityI)
  show "length (take (Suc n) ((shift_right_loop es n k)[k := v])) =
        length (take k (take n es) @ v # drop k (take n es))"
    using assms by simp
next
  fix j assume "j < length (take (Suc n) ((shift_right_loop es n k)[k := v]))"
  with assms have j: "j < Suc n" by simp
  have l: "take (Suc n) ((shift_right_loop es n k)[k := v]) ! j =
           (if j = k then v else if k < j then es ! (j - 1) else es ! j)"
    using j assms by (simp add: nth_list_update shift_right_loop_nth)
  have r: "(take k (take n es) @ v # drop k (take n es)) ! j =
           (if j = k then v else if k < j then es ! (j - 1) else es ! j)"
    using j assms by (auto simp: nth_append nth_Cons' min_def)
  from l r show "take (Suc n) ((shift_right_loop es n k)[k := v]) ! j =
                 (take k (take n es) @ v # drop k (take n es)) ! j"
    by simp
qed

lemma hml_grow_props:
  assumes "hml_wf a"
  shows "hml_length (hml_grow_if_needed a) = hml_length a"
    and "hml_element_type (hml_grow_if_needed a) = hml_element_type a"
    and "hml_length a < hml_capacity (hml_grow_if_needed a)"
    and "length (hml_elements (hml_grow_if_needed a)) = hml_capacity (hml_grow_if_needed a)"
    and "take (hml_length a) (hml_elements (hml_grow_if_needed a)) = hml_live a"
  using assms by (auto simp: hml_wf_def hml_grow_if_needed_def hml_live_def Let_def)

lemma take_Suc_update:
  "n < length es \<Longrightarrow> take (Suc n) (es[n := v]) = take n es @ [v]"
  by (simp add: take_Suc_conv_app_nth)

lemma hml_array_push_live:
  assumes "hml_checked_array arr = Some a" and "hml_wf a"
    and "hml_element_type a = HML_VAL_NULL \<or> hml_type val = hml_element_type a"
  shows "\<exists>a'. hml_array_push arr val = Inr a' \<and> hml_wf a' \<and>
              hml_element_type a' = hml_element_type a \<and>
              hml_live a' = hml_live a @ [val]"
proof -
  let ?a1 = "hml_grow_if_needed a"
  let ?a' = "HmlArray ((hml_elements ?a1)[hml_length ?a1 := val])
               (hml_length ?a1 + 1) (hml_capacity ?a1) (hml_element_type ?a1)"
  note g = hml_grow_props[OF assms(2)]
  have "hml_array_push arr val = Inr ?a'"
    using assms(1,3) by (auto simp: hml_array_push_def Let_def)
  moreover have "hml_wf ?a'" using g by (simp add: hml_wf_def)
  moreover have "hml_element_type ?a' = hml_element_type a" using g by simp
  moreover have "hml_live ?a' = hml_live a @ [val]"
  proof -
    have "hml_length a < length (hml_elements ?a1)" using g(3,4) by simp
    from take_Suc_update[OF this, of val] show ?thesis
      by (simp add: hml_live_def g(1) g(5)[unfolded hml_live_def])
  qed
  ultimately show ?thesis by blast
qed

lemma hml_array_unshift_live:
  assumes "hml_checked_array arr = Some a" and "hml_wf a"
    and "hml_element_type a = HML_VAL_NULL \<or> hml_type val = hml_element_type a"
  shows "\<exists>a'. hml_array_unshift arr val = Inr a' \<and> hml_wf a' \<and>
              hml_element_type a' = hml_element_type a \<and>
              hml_live a' = val # hml_live a"
proof -
  let ?a1 = "hml_grow_if_needed a"
  let ?a' = "HmlArray ((shift_right_loop (hml_elements ?a1) (hml_length ?a1) 0)[0 := val])
               (hml_length ?a1 + 1) (hml_capacity ?a1) (hml_element_type ?a1)"
  note g = hml_grow_props[OF assms(2)]
  have "hml_array_unshift arr val = Inr ?a'"
    using assms(1,3) by (auto simp: hml_array_unshift_def Let_def)
  moreover have "hml_wf ?a'" using g by (simp add: hml_wf_def)
  moreover have "hml_element_type ?a' = hml_element_type a" using g by simp
  moreover have "hml_live ?a' = val # hml_live a"
  proof -
    have "hml_length a < length (hml_elements ?a1)" using g(3,4) by simp
    from shift_right_insert_take[OF this, of 0 val] show ?thesis
      by (simp add: hml_live_def g(1) g(5)[unfolded hml_live_def])
  qed
  ultimately show ?thesis by blast
qed

lemma hml_array_insert_live:
  assumes "hml_checked_array arr = Some a" and "hml_wf a"
    and "hml_element_type a = HML_VAL_NULL \<or> hml_type val = hml_element_type a"
    and "0 \<le> to_i32 index" and "to_i32 index \<le> int (hml_length a)"
  shows "\<exists>a'. hml_array_insert to_i32 arr index val = Inr a' \<and> hml_wf a' \<and>
              hml_element_type a' = hml_element_type a \<and>
              hml_live a' = take (nat (to_i32 index)) (hml_live a) @ val #
                            drop (nat (to_i32 index)) (hml_live a)"
proof -
  let ?k = "nat (to_i32 index)"
  let ?a1 = "hml_grow_if_needed a"
  let ?a' = "HmlArray ((shift_right_loop (hml_elements ?a1) (hml_length ?a1) ?k)[?k := val])
               (hml_length ?a1 + 1) (hml_capacity ?a1) (hml_element_type ?a1)"
  note g = hml_grow_props[OF assms(2)]
  have "hml_array_insert to_i32 arr index val = Inr ?a'"
    using assms(1,3,4,5) by (auto simp: hml_array_insert_def Let_def)
  moreover have "hml_wf ?a'" using g by (simp add: hml_wf_def)
  moreover have "hml_element_type ?a' = hml_element_type a" using g by simp
  moreover have "hml_live ?a' = take ?k (hml_live a) @ val # drop ?k (hml_live a)"
  proof -
    have n: "hml_length a < length (hml_elements ?a1)" using g(3,4) by simp
    have k: "?k \<le> hml_length a" using assms(4,5) by simp
    from shift_right_insert_take[OF n k, of val] show ?thesis
      by (simp only: hml_live_def g(1) g(5)[unfolded hml_live_def] HmlArray.sel Suc_eq_plus1)
  qed
  ultimately show ?thesis by blast
qed

lemma hml_set_extend_props:
  "hml_wf a \<Longrightarrow>
   hml_wf (hml_set_extend a idx) \<and>
   hml_element_type (hml_set_extend a idx) = hml_element_type a \<and>
   hml_length (hml_set_extend a idx) = max (hml_length a) (idx + 1) \<and>
   hml_live (hml_set_extend a idx) =
     hml_live a @ replicate (idx + 1 - hml_length a) hml_val_null"
proof (induction a idx rule: hml_set_extend.induct)
  case (1 a idx)
  show ?case
  proof (cases "idx \<ge> hml_length a")
    case True
    let ?a1 = "hml_grow_if_needed a"
    let ?a2 = "HmlArray ((hml_elements ?a1)[hml_length ?a1 := hml_val_null])
                 (hml_length ?a1 + 1) (hml_capacity ?a1) (hml_element_type ?a1)"
    note g = hml_grow_props[OF "1.prems"]
    have wf2: "hml_wf ?a2" using g by (simp add: hml_wf_def)
    have len2: "hml_length ?a2 = Suc (hml_length a)" using g by simp
    have ty2: "hml_element_type ?a2 = hml_element_type a" using g by simp
    have live2: "hml_live ?a2 = hml_live a @ [hml_val_null]"
    proof -
      have "hml_length a < length (hml_elements ?a1)" using g(3,4) by simp
      from take_Suc_update[OF this, of hml_val_null] show ?thesis
        by (simp add: hml_live_def g(1) g(5)[unfolded hml_live_def])
    qed
    have e: "hml_set_extend a idx = hml_set_extend ?a2 idx"
      using True by (subst hml_set_extend.simps) (simp add: Let_def)
    have r: "[hml_val_null] @ replicate (idx + 1 - Suc (hml_length a)) hml_val_null =
             replicate (idx + 1 - hml_length a) hml_val_null"
      using True by (simp add: Suc_diff_le flip: replicate_Suc)
    from "1.IH"[OF True refl wf2] have
      "hml_wf (hml_set_extend ?a2 idx)"
      "hml_element_type (hml_set_extend ?a2 idx) = hml_element_type ?a2"
      "hml_length (hml_set_extend ?a2 idx) = max (hml_length ?a2) (idx + 1)"
      "hml_live (hml_set_extend ?a2 idx) =
         hml_live ?a2 @ replicate (idx + 1 - hml_length ?a2) hml_val_null"
      by simp_all
    then show ?thesis
      unfolding e[symmetric] len2 ty2 live2 using True r by (simp add: max_def)
  next
    case False
    then have "hml_set_extend a idx = a" by (subst hml_set_extend.simps) simp
    with False "1.prems" show ?thesis by (simp add: max_def)
  qed
qed

lemma hml_array_set_live:
  assumes "hml_checked_array arr = Some a" and "hml_wf a"
    and "hml_element_type a = HML_VAL_NULL \<or> hml_type val = hml_element_type a"
    and "0 \<le> to_i32 index"
  shows "\<exists>a'. hml_array_set to_i32 arr index val = Inr a' \<and> hml_wf a' \<and>
              hml_element_type a' = hml_element_type a \<and>
              hml_live a' =
                (hml_live a @ replicate (nat (to_i32 index) + 1 - hml_length a) hml_val_null)
                  [nat (to_i32 index) := val]"
proof -
  let ?k = "nat (to_i32 index)"
  let ?a1 = "hml_set_extend a ?k"
  let ?a' = "HmlArray ((hml_elements ?a1)[?k := val])
               (hml_length ?a1) (hml_capacity ?a1) (hml_element_type ?a1)"
  note e = hml_set_extend_props[OF assms(2), of ?k]
  have "hml_array_set to_i32 arr index val = Inr ?a'"
    using assms(1,3,4) by (auto simp: hml_array_set_def Let_def)
  moreover have "hml_wf ?a'"
  proof -
    from e have "hml_wf ?a1" by blast
    then show ?thesis by (simp add: hml_wf_def)
  qed
  moreover have "hml_element_type ?a' = hml_element_type a" using e by simp
  moreover have "hml_live ?a' =
      (hml_live a @ replicate (?k + 1 - hml_length a) hml_val_null)[?k := val]"
  proof -
    have "hml_live ?a' = (hml_live ?a1)[?k := val]"
      by (simp add: hml_live_def take_update_swap)
    with e show ?thesis by simp
  qed
  ultimately show ?thesis by blast
qed

section \<open>Theorems: typed arrays\<close>

lemma hml_live_length: "hml_wf a \<Longrightarrow> length (hml_live a) = hml_length a"
  by (simp add: hml_wf_def hml_live_def)

lemma typed_ok_iff:
  "hml_typed_ok a = (\<forall>v \<in> set (hml_live a). hml_type v = hml_element_type a)"
  by (simp add: hml_typed_ok_def list_all_iff)

lemma typed_writes_mismatch:
  assumes "hml_checked_array arr = Some a"
    and "hml_element_type a \<noteq> HML_VAL_NULL"
    and "hml_type val \<noteq> hml_element_type a"
  shows "hml_array_push arr val = Inl type_mismatch"
    and "hml_array_unshift arr val = Inl type_mismatch"
    and "hml_array_insert to_i32 arr index val = Inl type_mismatch"
    and "hml_array_set to_i32 arr index val = Inl type_mismatch"
  using assms
  by (simp_all add: hml_array_push_def hml_array_unshift_def hml_array_insert_def
        hml_array_set_def Let_def)

lemma push_adds_only:
  assumes "hml_checked_array arr = Some a" and "hml_wf a"
    and "hml_element_type a \<noteq> HML_VAL_NULL"
    and "hml_array_push arr val = Inr a'"
  shows "hml_element_type a' = hml_element_type a \<and> hml_type val = hml_element_type a \<and>
         set (hml_live a') \<subseteq> insert val (set (hml_live a))"
proof -
  have m: "hml_type val = hml_element_type a"
    using assms(1,3,4) by (auto simp: hml_array_push_def split: if_splits)
  have m': "hml_element_type a = HML_VAL_NULL \<or> hml_type val = hml_element_type a"
    using m by simp
  from hml_array_push_live[OF assms(1,2) m'] assms(4)
  have "hml_element_type a' = hml_element_type a" and "hml_live a' = hml_live a @ [val]"
    by auto
  with m show ?thesis by auto
qed

lemma unshift_adds_only:
  assumes "hml_checked_array arr = Some a" and "hml_wf a"
    and "hml_element_type a \<noteq> HML_VAL_NULL"
    and "hml_array_unshift arr val = Inr a'"
  shows "hml_element_type a' = hml_element_type a \<and> hml_type val = hml_element_type a \<and>
         set (hml_live a') \<subseteq> insert val (set (hml_live a))"
proof -
  have m: "hml_type val = hml_element_type a"
    using assms(1,3,4) by (auto simp: hml_array_unshift_def split: if_splits)
  have m': "hml_element_type a = HML_VAL_NULL \<or> hml_type val = hml_element_type a"
    using m by simp
  from hml_array_unshift_live[OF assms(1,2) m'] assms(4)
  have "hml_element_type a' = hml_element_type a" and "hml_live a' = val # hml_live a"
    by auto
  with m show ?thesis by auto
qed

lemma insert_adds_only:
  assumes "hml_checked_array arr = Some a" and "hml_wf a"
    and "hml_element_type a \<noteq> HML_VAL_NULL"
    and "hml_array_insert to_i32 arr index val = Inr a'"
  shows "hml_element_type a' = hml_element_type a \<and> hml_type val = hml_element_type a \<and>
         set (hml_live a') \<subseteq> insert val (set (hml_live a))"
proof -
  have m: "hml_type val = hml_element_type a"
    and lo: "0 \<le> to_i32 index" and hi: "to_i32 index \<le> int (hml_length a)"
    using assms(1,3,4) by (auto simp: hml_array_insert_def Let_def split: if_splits)
  have m': "hml_element_type a = HML_VAL_NULL \<or> hml_type val = hml_element_type a"
    using m by simp
  from hml_array_insert_live[of arr a val to_i32 index, OF assms(1,2) m' lo hi] assms(4)
  have t: "hml_element_type a' = hml_element_type a"
    and l: "hml_live a' = take (nat (to_i32 index)) (hml_live a) @ val #
                          drop (nat (to_i32 index)) (hml_live a)"
    by auto
  have "set (hml_live a') \<subseteq> insert val (set (hml_live a))"
    unfolding l by (auto dest: in_set_takeD in_set_dropD)
  with t m show ?thesis by simp
qed

lemma set_adds_only:
  assumes "hml_checked_array arr = Some a" and "hml_wf a"
    and "hml_element_type a \<noteq> HML_VAL_NULL"
    and "hml_array_set to_i32 arr index val = Inr a'"
    and "to_i32 index \<le> int (hml_length a)"
  shows "hml_element_type a' = hml_element_type a \<and> hml_type val = hml_element_type a \<and>
         set (hml_live a') \<subseteq> insert val (set (hml_live a))"
proof -
  let ?k = "nat (to_i32 index)"
  have m: "hml_type val = hml_element_type a" and lo: "0 \<le> to_i32 index"
    using assms(1,3,4) by (auto simp: hml_array_set_def Let_def split: if_splits)
  have m': "hml_element_type a = HML_VAL_NULL \<or> hml_type val = hml_element_type a"
    using m by simp
  from hml_array_set_live[of arr a val to_i32 index, OF assms(1,2) m' lo] assms(4)
  have t: "hml_element_type a' = hml_element_type a"
    and l: "hml_live a' =
              (hml_live a @ replicate (?k + 1 - hml_length a) hml_val_null)[?k := val]"
    by auto
  have len: "length (hml_live a) = hml_length a" by (rule hml_live_length[OF assms(2)])
  have "set (hml_live a') \<subseteq> insert val (set (hml_live a))"
  proof (cases "?k < hml_length a")
    case True
    then have "hml_live a' = (hml_live a)[?k := val]" using l by simp
    then show ?thesis by (simp add: set_update_subset_insert)
  next
    case False
    with assms(5) lo have k: "?k = hml_length a" by simp
    have "hml_live a' = hml_live a @ [val]"
      unfolding l k using len[symmetric] by (simp add: list_update_append)
    then show ?thesis by auto
  qed
  with t m show ?thesis by simp
qed

lemma typed_ok_kept:
  assumes "hml_element_type a' = hml_element_type a \<and> hml_type val = hml_element_type a \<and>
           set (hml_live a') \<subseteq> insert val (set (hml_live a))"
    and "hml_typed_ok a"
  shows "hml_typed_ok a'"
  using assms unfolding typed_ok_iff by auto

text \<open>
  Claim C2, as the code has it. Take a typed array (\<open>element_type\<close> not NULL). A push,
  an unshift, an insert or an indexed set of a value whose type differs from the tag
  fails with the type-mismatch error. After a push, an unshift or an insert that
  succeeds, and after an indexed set that succeeds at an index not beyond \<open>length\<close>,
  the tag is the same, and every element is either the value written, whose type is
  the tag, or an element the array had before: the write introduces no element whose
  type differs from the tag, and when every element had the type of the tag before,
  every element has it after.
\<close>

theorem typed_array_writes:
  assumes "hml_checked_array arr = Some a" and "hml_wf a"
    and "hml_element_type a \<noteq> HML_VAL_NULL"
  shows "(hml_type val \<noteq> hml_element_type a \<longrightarrow>
            hml_array_push arr val = Inl type_mismatch \<and>
            hml_array_unshift arr val = Inl type_mismatch \<and>
            hml_array_insert to_i32 arr index val = Inl type_mismatch \<and>
            hml_array_set to_i32 arr index val = Inl type_mismatch) \<and>
         (\<forall>a'. hml_array_push arr val = Inr a' \<or>
               hml_array_unshift arr val = Inr a' \<or>
               hml_array_insert to_i32 arr index val = Inr a' \<or>
               hml_array_set to_i32 arr index val = Inr a' \<and> to_i32 index \<le> int (hml_length a)
            \<longrightarrow> hml_element_type a' = hml_element_type a \<and>
                hml_type val = hml_element_type a \<and>
                set (hml_live a') \<subseteq> insert val (set (hml_live a)) \<and>
                (hml_typed_ok a \<longrightarrow> hml_typed_ok a'))"
proof (intro conjI impI allI)
  assume "hml_type val \<noteq> hml_element_type a"
  note mm = typed_writes_mismatch[OF assms(1,3) this]
  show "hml_array_push arr val = Inl type_mismatch" by (rule mm(1))
  show "hml_array_unshift arr val = Inl type_mismatch" by (rule mm(2))
  show "hml_array_insert to_i32 arr index val = Inl type_mismatch" by (rule mm(3))
  show "hml_array_set to_i32 arr index val = Inl type_mismatch" by (rule mm(4))
next
  fix a'
  assume w: "hml_array_push arr val = Inr a' \<or>
          hml_array_unshift arr val = Inr a' \<or>
          hml_array_insert to_i32 arr index val = Inr a' \<or>
          hml_array_set to_i32 arr index val = Inr a' \<and> to_i32 index \<le> int (hml_length a)"
  then have r: "hml_element_type a' = hml_element_type a \<and> hml_type val = hml_element_type a \<and>
         set (hml_live a') \<subseteq> insert val (set (hml_live a))"
    using push_adds_only[OF assms, of val a'] unshift_adds_only[OF assms, of val a']
      insert_adds_only[OF assms, of to_i32 index val a']
      set_adds_only[OF assms, of to_i32 index val a']
    by blast
  from r show "hml_element_type a' = hml_element_type a" by simp
  from r show "hml_type val = hml_element_type a" by simp
  from r show "set (hml_live a') \<subseteq> insert val (set (hml_live a))" by simp
  assume "hml_typed_ok a"
  with r show "hml_typed_ok a'" by (rule typed_ok_kept)
qed

text \<open>
  The claim as stated, refuted. An indexed set beyond \<open>length\<close> pads with nulls: on
  the empty array typed \<open>i32\<close>, \<open>a[1] = 7\<close> succeeds and leaves the elements
  \<open>[null, 7]\<close>, and the element at index 0 has the type NULL, not I32. And the
  elements of a typed array need not match its tag before the write:
  \<open>hml_array_set_element_type\<close> sets the tag of \<open>[null]\<close> to \<open>i32\<close> without looking at
  the elements, and a push of \<open>7\<close> then succeeds and leaves \<open>[null, 7]\<close>.
\<close>

theorem typed_array_set_counterexample:
  "hml_checked_array typed_i32_empty = Some (HmlArray [] 0 0 HML_VAL_I32) \<and>
   hml_wf (HmlArray [] 0 0 HML_VAL_I32) \<and>
   hml_typed_ok (HmlArray [] 0 0 HML_VAL_I32) \<and>
   hml_array_set hml_to_i32_of_i32 typed_i32_empty (hml_val_i32 1) (hml_val_i32 7) =
     Inr (HmlArray (hml_val_null # hml_val_i32 7 # replicate 6 hml_val_null) 2 8 HML_VAL_I32) \<and>
   hml_live (HmlArray (hml_val_null # hml_val_i32 7 # replicate 6 hml_val_null) 2 8 HML_VAL_I32) =
     [hml_val_null, hml_val_i32 7] \<and>
   hml_type hml_val_null \<noteq> HML_VAL_I32 \<and>
   \<not> hml_typed_ok (HmlArray (hml_val_null # hml_val_i32 7 # replicate 6 hml_val_null) 2 8 HML_VAL_I32) \<and>
   hml_array_set_element_type (hml_array_of [hml_val_null] HML_VAL_NULL) HML_VAL_I32 =
     Inr (HmlArray [hml_val_null] 1 1 HML_VAL_I32) \<and>
   hml_array_push (hml_array_of [hml_val_null] HML_VAL_I32) (hml_val_i32 7) =
     Inr (HmlArray [hml_val_null, hml_val_i32 7] 2 2 HML_VAL_I32) \<and>
   \<not> hml_typed_ok (HmlArray [hml_val_null, hml_val_i32 7] 2 2 HML_VAL_I32)"
  by code_simp

lemma hml_array_of_checked:
  "hml_checked_array (hml_array_of xs t) = Some (HmlArray xs (length xs) (length xs) t)"
  by (simp add: hml_array_of_def hml_checked_array_def)

theorem typed_array_writes_witness:
  "hml_checked_array (hml_array_of [hml_val_i32 1, hml_val_i32 2] HML_VAL_I32) =
     Some (HmlArray [hml_val_i32 1, hml_val_i32 2] 2 2 HML_VAL_I32) \<and>
   hml_wf (HmlArray [hml_val_i32 1, hml_val_i32 2] 2 2 HML_VAL_I32) \<and>
   hml_typed_ok (HmlArray [hml_val_i32 1, hml_val_i32 2] 2 2 HML_VAL_I32) \<and>
   hml_array_push (hml_array_of [hml_val_i32 1, hml_val_i32 2] HML_VAL_I32) hml_val_null =
     Inl type_mismatch \<and>
   hml_array_set hml_to_i32_of_i32 (hml_array_of [hml_val_i32 1, hml_val_i32 2] HML_VAL_I32)
     (hml_val_i32 0) hml_val_null = Inl type_mismatch \<and>
   (\<exists>a'. hml_array_set hml_to_i32_of_i32 (hml_array_of [hml_val_i32 1, hml_val_i32 2] HML_VAL_I32)
            (hml_val_i32 2) (hml_val_i32 7) = Inr a' \<and>
          hml_element_type a' = HML_VAL_I32 \<and> hml_typed_ok a') \<and>
   (\<exists>a'. hml_array_insert hml_to_i32_of_i32 (hml_array_of [hml_val_i32 1, hml_val_i32 2] HML_VAL_I32)
            (hml_val_i32 1) (hml_val_i32 7) = Inr a' \<and>
          hml_element_type a' = HML_VAL_I32 \<and> hml_typed_ok a')"
proof -
  let ?xs = "[hml_val_i32 1, hml_val_i32 2]"
  let ?a = "HmlArray ?xs 2 2 HML_VAL_I32"
  let ?arr = "hml_array_of ?xs HML_VAL_I32"
  have c: "hml_checked_array ?arr = Some ?a"
    using hml_array_of_checked[of ?xs HML_VAL_I32] by simp
  have w: "hml_wf ?a" by (simp add: hml_wf_def)
  have t: "hml_element_type ?a \<noteq> HML_VAL_NULL" by simp
  have ok: "hml_typed_ok ?a" by (simp add: hml_typed_ok_def hml_live_def hml_val_i32_def)
  have n: "hml_type hml_val_null \<noteq> hml_element_type ?a" by (simp add: hml_val_null_def)
  have ix: "hml_to_i32_of_i32 (hml_val_i32 2) \<le> int (hml_length ?a)"
    by (simp add: hml_to_i32_of_i32_def hml_val_i32_def)
  let ?a1 = "HmlArray [hml_val_i32 1, hml_val_i32 2, hml_val_i32 7, hml_val_null] 3 4 HML_VAL_I32"
  let ?a2 = "HmlArray [hml_val_i32 1, hml_val_i32 7, hml_val_i32 2, hml_val_null] 3 4 HML_VAL_I32"
  have s: "hml_array_set hml_to_i32_of_i32 ?arr (hml_val_i32 2) (hml_val_i32 7) = Inr ?a1"
    by code_simp
  have i: "hml_array_insert hml_to_i32_of_i32 ?arr (hml_val_i32 1) (hml_val_i32 7) = Inr ?a2"
    by code_simp
  note th = typed_array_writes[OF c w t]
  from th[of hml_val_null hml_to_i32_of_i32 "hml_val_i32 0"] n
  have 1: "hml_array_push ?arr hml_val_null = Inl type_mismatch"
    "hml_array_set hml_to_i32_of_i32 ?arr (hml_val_i32 0) hml_val_null = Inl type_mismatch"
    by blast+
  from th[of "hml_val_i32 7" hml_to_i32_of_i32 "hml_val_i32 2"] s ix ok
  have 2: "hml_element_type ?a1 = HML_VAL_I32 \<and> hml_typed_ok ?a1" by simp
  from th[of "hml_val_i32 7" hml_to_i32_of_i32 "hml_val_i32 1"] i ok
  have 3: "hml_element_type ?a2 = HML_VAL_I32 \<and> hml_typed_ok ?a2" by simp
  from c w ok 1 2 3 s i show ?thesis by blast
qed

text \<open>
  \<open>hml_validate_typed_array\<close> is how an array becomes typed: when it succeeds with a
  tag other than NULL, every element has the type of the tag, which is the invariant
  the writes above preserve.
\<close>

lemma validate_loop_iff:
  "validate_loop a t i =
     (\<forall>j. i \<le> j \<and> j < hml_length a \<longrightarrow> hml_type_matches (hml_elements a ! j) t)"
proof (induction a t i rule: validate_loop.induct)
  case (1 a t i)
  show ?case
  proof (cases "i < hml_length a")
    case True
    show ?thesis
    proof (cases "hml_type_matches (hml_elements a ! i) t")
      case m: True
      have "validate_loop a t i = validate_loop a t (i + 1)"
        using True m by (subst validate_loop.simps) simp
      also have "\<dots> = (\<forall>j. i + 1 \<le> j \<and> j < hml_length a \<longrightarrow>
                          hml_type_matches (hml_elements a ! j) t)"
        using "1.IH"[OF True] m by simp
      also have "\<dots> = (\<forall>j. i \<le> j \<and> j < hml_length a \<longrightarrow>
                          hml_type_matches (hml_elements a ! j) t)"
      proof (intro iffI allI impI)
        fix j
        assume h: "\<forall>j. i + 1 \<le> j \<and> j < hml_length a \<longrightarrow>
                       hml_type_matches (hml_elements a ! j) t"
          and j: "i \<le> j \<and> j < hml_length a"
        show "hml_type_matches (hml_elements a ! j) t"
        proof (cases "j = i")
          case True
          with m show ?thesis by simp
        next
          case False
          with j have "i + 1 \<le> j \<and> j < hml_length a" by simp
          with h show ?thesis by blast
        qed
      next
        fix j
        assume h: "\<forall>j. i \<le> j \<and> j < hml_length a \<longrightarrow>
                       hml_type_matches (hml_elements a ! j) t"
          and j: "i + 1 \<le> j \<and> j < hml_length a"
        then have "i \<le> j \<and> j < hml_length a" by simp
        with h show "hml_type_matches (hml_elements a ! j) t" by blast
      qed
      finally show ?thesis .
    next
      case False
      then have "\<not> validate_loop a t i"
        using True by (subst validate_loop.simps) simp
      with False True show ?thesis by auto
    qed
  next
    case False
    then have "validate_loop a t i" by (subst validate_loop.simps) simp
    with False show ?thesis by auto
  qed
qed

lemma hml_validate_establishes:
  assumes "hml_checked_array arr = Some a" and "hml_wf a" and "t \<noteq> HML_VAL_NULL"
    and "hml_validate_typed_array arr t = Inr a'"
  shows "hml_element_type a' = t \<and> hml_live a' = hml_live a \<and> hml_typed_ok a'"
proof -
  from assms(1,3,4) have v: "validate_loop a t 0"
    and a': "a' = HmlArray (hml_elements a) (hml_length a) (hml_capacity a) t"
    by (auto simp: hml_validate_typed_array_def split: if_splits)
  from assms(2) have n: "hml_length a \<le> length (hml_elements a)" by (simp add: hml_wf_def)
  have "\<forall>v \<in> set (hml_live a). hml_type v = t"
  proof
    fix x assume "x \<in> set (hml_live a)"
    then obtain j where j: "j < hml_length a" and x: "x = hml_elements a ! j"
      using n by (auto simp: hml_live_def in_set_conv_nth)
    from v j have "hml_type_matches (hml_elements a ! j) t"
      by (simp add: validate_loop_iff)
    with assms(3) x show "hml_type x = t" by (simp add: hml_type_matches_def)
  qed
  with a' show ?thesis by (simp add: typed_ok_iff hml_live_def)
qed

section \<open>Theorems: indexed read\<close>

text \<open>
  Claim C3. \<open>array_get\<close> returns the element at index \<open>i\<close> exactly when
  \<open>0 \<le> i < length\<close>; for every other index, negative or not below \<open>length\<close>, it
  fails with \<open>Array index N out of bounds (length M)\<close> (after the prefix
  \<open>Runtime error: \<close>) and exit status 1. \<open>hml_array_get\<close> does the same on an array
  value, at the index its argument converts to.
\<close>

theorem array_get_in_bounds:
  "array_get arr i =
     (if 0 \<le> i \<and> i < int (arr_length arr) then Inr (arr_elements arr ! nat i)
      else Inl (Exit (''Runtime error: '' @ out_of_bounds_msg i (arr_length arr) @ newline) 1)) \<and>
   (hml_checked_array harr = Some a \<longrightarrow>
      hml_array_get to_i32 harr index =
        (if 0 \<le> to_i32 index \<and> to_i32 index < int (hml_length a)
         then Inr (hml_elements a ! nat (to_i32 index))
         else Inl (Exit (''Runtime error: '' @ out_of_bounds_msg (to_i32 index) (hml_length a)) 1)))"
  by (auto simp: array_get_def hml_array_get_def out_of_bounds_msg_def hml_runtime_error_def
      Let_def)

theorem array_get_in_bounds_witness:
  "array_get (Array [val_i32 1, val_i32 2] 2 2) 5 =
     Inl (Exit (''Runtime error: Array index 5 out of bounds (length 2)'' @ newline) 1) \<and>
   array_get (Array [val_i32 1, val_i32 2] 2 2) (- 1) =
     Inl (Exit (''Runtime error: Array index -1 out of bounds (length 2)'' @ newline) 1) \<and>
   array_get (Array [val_i32 1, val_i32 2] 2 2) 2 =
     Inl (Exit (''Runtime error: Array index 2 out of bounds (length 2)'' @ newline) 1) \<and>
   array_get (Array [val_i32 1, val_i32 2] 2 2) 1 = Inr (val_i32 2) \<and>
   hml_checked_array (hml_array_of [hml_val_i32 1, hml_val_i32 2] HML_VAL_NULL) =
     Some (HmlArray [hml_val_i32 1, hml_val_i32 2] 2 2 HML_VAL_NULL) \<and>
   hml_array_get hml_to_i32_of_i32 (hml_array_of [hml_val_i32 1, hml_val_i32 2] HML_VAL_NULL)
       (hml_val_i32 5) =
     Inl (Exit ''Runtime error: Array index 5 out of bounds (length 2)'' 1) \<and>
   hml_array_get hml_to_i32_of_i32 (hml_array_of [hml_val_i32 1, hml_val_i32 2] HML_VAL_NULL)
       (hml_val_i32 0) = Inr (hml_val_i32 1)"
proof -
  have c: "hml_checked_array (hml_array_of [hml_val_i32 1, hml_val_i32 2] HML_VAL_NULL) =
     Some (HmlArray [hml_val_i32 1, hml_val_i32 2] 2 2 HML_VAL_NULL)"
    by (simp add: hml_array_of_def hml_checked_array_def)
  have d: "dec_int 5 = ''5''" "dec_int 2 = ''2''" "dec_int (- 1) = ''-1''"
    by (simp_all add: dec_int_def dec_nat.simps)
  have t: "hml_to_i32_of_i32 (hml_val_i32 5) = 5" "hml_to_i32_of_i32 (hml_val_i32 0) = 0"
    by (simp_all add: hml_to_i32_of_i32_def hml_val_i32_def)
  note g = array_get_in_bounds[of "Array [val_i32 1, val_i32 2] 2 2" _
      "hml_array_of [hml_val_i32 1, hml_val_i32 2] HML_VAL_NULL"
      "HmlArray [hml_val_i32 1, hml_val_i32 2] 2 2 HML_VAL_NULL" hml_to_i32_of_i32]
  from g[of 5 "hml_val_i32 5"] g[of "- 1" "hml_val_i32 5"] g[of 2 "hml_val_i32 5"]
    g[of 1 "hml_val_i32 0"] c
  show ?thesis
    by (simp add: out_of_bounds_msg_def d t)
qed

section \<open>Theorems: pop, shift and reduce\<close>

lemma take_last_butlast:
  assumes "0 < n" and "n \<le> length es"
  shows "es ! (n - 1) = last (take n es)" and "take (n - 1) es = butlast (take n es)"
proof -
  from assms have "take n es \<noteq> []" by auto
  then have "last (take n es) = take n es ! (length (take n es) - 1)"
    by (rule last_conv_nth)
  with assms show "es ! (n - 1) = last (take n es)" by simp
  from assms show "take (n - 1) es = butlast (take n es)"
    by (simp add: butlast_take)
qed

lemma nth0_hd_take: "0 < n \<Longrightarrow> n \<le> length es \<Longrightarrow> es ! 0 = hd (take n es)"
  by (cases es; cases n) simp_all

lemma drop_take_Cons:
  assumes "i < n" and "n \<le> length es"
  shows "drop i (take n es) = es ! i # drop (Suc i) (take n es)"
proof -
  from assms have "i < length (take n es)" by simp
  from Cons_nth_drop_Suc[OF this] assms show ?thesis by simp
qed

lemma array_pop_nonempty:
  assumes "arr_wf arr" and "0 < arr_length arr"
  shows "fst (array_pop arr) = last (arr_live arr)"
    and "arr_live (snd (array_pop arr)) = butlast (arr_live arr)"
    and "Suc (arr_length (snd (array_pop arr))) = arr_length arr"
proof -
  from assms have n: "arr_length arr \<le> length (arr_elements arr)" by (simp add: arr_wf_def)
  note t = take_last_butlast[OF assms(2) n]
  from assms(2) t(1) show "fst (array_pop arr) = last (arr_live arr)"
    by (simp add: array_pop_def arr_live_def)
  from assms(2) t(2) show "arr_live (snd (array_pop arr)) = butlast (arr_live arr)"
    by (simp add: array_pop_def arr_live_def)
  from assms(2) show "Suc (arr_length (snd (array_pop arr))) = arr_length arr"
    by (simp add: array_pop_def)
qed

lemma hml_array_pop_nonempty:
  assumes "hml_checked_array harr = Some a" and "hml_wf a" and "0 < hml_length a"
  shows "\<exists>a'. hml_array_pop harr = Inr (last (hml_live a), a') \<and>
              hml_live a' = butlast (hml_live a) \<and> Suc (hml_length a') = hml_length a"
proof -
  from assms have n: "hml_length a \<le> length (hml_elements a)" by (simp add: hml_wf_def)
  note t = take_last_butlast[OF assms(3) n]
  let ?a' = "HmlArray (hml_elements a) (hml_length a - 1) (hml_capacity a) (hml_element_type a)"
  have "hml_array_pop harr = Inr (last (hml_live a), ?a')"
    using assms(1,3) t(1) by (simp add: hml_array_pop_def hml_live_def)
  moreover have "hml_live ?a' = butlast (hml_live a)"
    using t(2) by (simp add: hml_live_def)
  moreover have "Suc (hml_length ?a') = hml_length a" using assms(3) by simp
  ultimately show ?thesis by blast
qed

lemma hml_array_shift_nonempty:
  assumes "hml_checked_array harr = Some a" and "hml_wf a" and "0 < hml_length a"
  shows "\<exists>a'. hml_array_shift harr = Inr (hd (hml_live a), a') \<and>
              hml_live a' = tl (hml_live a) \<and> Suc (hml_length a') = hml_length a"
proof -
  from assms have n: "hml_length a \<le> length (hml_elements a)" by (simp add: hml_wf_def)
  let ?a' = "HmlArray (shift_left_loop (hml_elements a) 0 (hml_length a))
               (hml_length a - 1) (hml_capacity a) (hml_element_type a)"
  have h: "hml_elements a ! 0 = hd (hml_live a)"
    unfolding hml_live_def by (rule nth0_hd_take[OF assms(3) n])
  have "hml_array_shift harr = Inr (hd (hml_live a), ?a')"
    using assms(1,3) h by (simp add: hml_array_shift_def)
  moreover have "hml_live ?a' = tl (hml_live a)"
    using shift_left_loop_take[OF assms(3) n] by (simp add: hml_live_def)
  moreover have "Suc (hml_length ?a') = hml_length a" using assms(3) by simp
  ultimately show ?thesis by blast
qed

text \<open>
  Claim C9. On an empty array \<open>array_pop\<close>, \<open>hml_array_pop\<close> and \<open>hml_array_shift\<close>
  return the null value and the array as it was; they raise no error. On a non-empty
  array pop returns the last element and shift the first, the remaining elements are
  the others in their order, and \<open>length\<close> is one less.
\<close>

theorem pop_shift_total:
  "(arr_length arr = 0 \<longrightarrow> array_pop arr = (val_null, arr)) \<and>
   (arr_wf arr \<and> 0 < arr_length arr \<longrightarrow>
      fst (array_pop arr) = last (arr_live arr) \<and>
      arr_live (snd (array_pop arr)) = butlast (arr_live arr) \<and>
      Suc (arr_length (snd (array_pop arr))) = arr_length arr) \<and>
   (hml_checked_array harr = Some a \<and> hml_length a = 0 \<longrightarrow>
      hml_array_pop harr = Inr (hml_val_null, a) \<and>
      hml_array_shift harr = Inr (hml_val_null, a)) \<and>
   (hml_checked_array harr = Some a \<and> hml_wf a \<and> 0 < hml_length a \<longrightarrow>
      (\<exists>a'. hml_array_pop harr = Inr (last (hml_live a), a') \<and>
            hml_live a' = butlast (hml_live a) \<and> Suc (hml_length a') = hml_length a) \<and>
      (\<exists>a'. hml_array_shift harr = Inr (hd (hml_live a), a') \<and>
            hml_live a' = tl (hml_live a) \<and> Suc (hml_length a') = hml_length a))"
  using array_pop_nonempty[of arr] hml_array_pop_nonempty[of harr a]
    hml_array_shift_nonempty[of harr a]
  by (auto simp: array_pop_def hml_array_pop_def hml_array_shift_def)

theorem pop_shift_total_witness:
  "array_pop (Array (replicate 8 val_null) 0 8) = (val_null, Array (replicate 8 val_null) 0 8) \<and>
   arr_wf (Array [val_i32 1, val_i32 2] 2 2) \<and>
   fst (array_pop (Array [val_i32 1, val_i32 2] 2 2)) = val_i32 2 \<and>
   arr_live (snd (array_pop (Array [val_i32 1, val_i32 2] 2 2))) = [val_i32 1] \<and>
   hml_array_pop (hml_array_of [] HML_VAL_NULL) = Inr (hml_val_null, HmlArray [] 0 0 HML_VAL_NULL) \<and>
   hml_array_shift (hml_array_of [] HML_VAL_NULL) = Inr (hml_val_null, HmlArray [] 0 0 HML_VAL_NULL) \<and>
   (\<exists>a'. hml_array_pop (hml_array_of [hml_val_i32 1, hml_val_i32 2, hml_val_i32 3] HML_VAL_NULL) =
            Inr (hml_val_i32 3, a') \<and>
          hml_live a' = [hml_val_i32 1, hml_val_i32 2] \<and> hml_length a' = 2) \<and>
   (\<exists>a'. hml_array_shift (hml_array_of [hml_val_i32 1, hml_val_i32 2, hml_val_i32 3] HML_VAL_NULL) =
            Inr (hml_val_i32 1, a') \<and>
          hml_live a' = [hml_val_i32 2, hml_val_i32 3] \<and> hml_length a' = 2)"
proof -
  let ?xs = "[hml_val_i32 1, hml_val_i32 2, hml_val_i32 3]"
  let ?a = "HmlArray ?xs 3 3 HML_VAL_NULL"
  have c: "hml_checked_array (hml_array_of ?xs HML_VAL_NULL) = Some ?a"
    using hml_array_of_checked[of ?xs HML_VAL_NULL] by simp
  have w: "hml_wf ?a" by (simp add: hml_wf_def)
  have l: "hml_live ?a = ?xs" by (simp add: hml_live_def)
  have c0: "hml_checked_array (hml_array_of [] HML_VAL_NULL) = Some (HmlArray [] 0 0 HML_VAL_NULL)"
    using hml_array_of_checked[of "[]" HML_VAL_NULL] by simp
  have iw: "arr_wf (Array [val_i32 1, val_i32 2] 2 2)" by (simp add: arr_wf_def)
  have il: "arr_live (Array [val_i32 1, val_i32 2] 2 2) = [val_i32 1, val_i32 2]"
    by (simp add: arr_live_def)
  note p1 = pop_shift_total[of "Array (replicate 8 val_null) 0 8"
      "hml_array_of [] HML_VAL_NULL" "HmlArray [] 0 0 HML_VAL_NULL"]
  note p2 = pop_shift_total[of "Array [val_i32 1, val_i32 2] 2 2"
      "hml_array_of ?xs HML_VAL_NULL" ?a]
  from p1 c0 have 1:
    "array_pop (Array (replicate 8 val_null) 0 8) = (val_null, Array (replicate 8 val_null) 0 8)"
    "hml_array_pop (hml_array_of [] HML_VAL_NULL) = Inr (hml_val_null, HmlArray [] 0 0 HML_VAL_NULL)"
    "hml_array_shift (hml_array_of [] HML_VAL_NULL) = Inr (hml_val_null, HmlArray [] 0 0 HML_VAL_NULL)"
    by simp_all
  from p2 iw il have 2:
    "fst (array_pop (Array [val_i32 1, val_i32 2] 2 2)) = val_i32 2"
    "arr_live (snd (array_pop (Array [val_i32 1, val_i32 2] 2 2))) = [val_i32 1]"
    by simp_all
  from p2 c w l have 3:
    "\<exists>a'. hml_array_pop (hml_array_of ?xs HML_VAL_NULL) = Inr (hml_val_i32 3, a') \<and>
          hml_live a' = [hml_val_i32 1, hml_val_i32 2] \<and> hml_length a' = 2"
    "\<exists>a'. hml_array_shift (hml_array_of ?xs HML_VAL_NULL) = Inr (hml_val_i32 1, a') \<and>
          hml_live a' = [hml_val_i32 2, hml_val_i32 3] \<and> hml_length a' = 2"
    by simp_all
  from 1 2 3 iw show ?thesis by blast
qed

lemma reduce_loop_fold:
  assumes "leaves_array call f a" and "hml_length a \<le> length (hml_elements a)"
  shows "i \<le> hml_length a \<Longrightarrow>
         reduce_loop call f a i acc =
           Some (case fold_call call a f acc (drop i (hml_live a)) of
                   Inl e \<Rightarrow> Inl e
                 | Inr v \<Rightarrow> Inr (v, a))"
proof (induction "hml_length a - i" arbitrary: i acc)
  case 0
  then have "drop i (hml_live a) = []" using assms(2) by (simp add: hml_live_def)
  with 0 show ?case by (subst reduce_loop.simps) simp
next
  case (Suc n)
  then have lt: "i < hml_length a" by simp
  have d: "drop i (hml_live a) = hml_elements a ! i # drop (i + 1) (hml_live a)"
    using lt assms(2) by (simp add: hml_live_def drop_take_Cons)
  show ?case
  proof (cases "call a f [acc, hml_elements a ! i]")
    case (Inl e)
    with lt d show ?thesis by (subst reduce_loop.simps) simp
  next
    case (Inr r)
    obtain new_acc a' where r: "r = (new_acc, a')" by (cases r)
    with Inr assms(1) have a': "a' = a" by (auto simp: leaves_array_def)
    from Suc.hyps(2) lt have n: "n = hml_length a - (i + 1)" by simp
    from lt have le: "i + 1 \<le> hml_length a" by simp
    from Suc.hyps(1)[OF n le, of new_acc] lt Inr r a' d show ?thesis
      by (subst reduce_loop.simps) simp
  qed
qed

lemma fold_call_total:
  "fold_call (\<lambda>b fn args. Inr (g (args ! 0) (args ! 1), b)) a f acc xs = Inr (foldl g acc xs)"
  by (induction xs arbitrary: acc) simp_all

text \<open>
  Claim C8, as the code has it. On an empty array \<open>hml_array_reduce\<close> fails with
  \<open>reduce() of empty array with no initial value\<close> (after the prefix
  \<open>Runtime error: \<close>, exit status 1) exactly when \<open>initial\<close> is NULL, and returns
  \<open>initial\<close> otherwise, whatever the callee. On a non-empty array, and for a callee
  whose calls leave the array as they found it, it returns, and the value is the left
  fold of the callee over the elements: from element 0 over the rest when \<open>initial\<close>
  is NULL, from \<open>initial\<close> over all elements otherwise (the fault of the callee, if a
  call ends in one). For a callee that always returns a value, the fold is \<open>foldl\<close>.
\<close>

theorem hml_array_reduce_fold:
  assumes "hml_checked_array arr = Some a" and "hml_wf a"
  shows "(hml_length a = 0 \<longrightarrow>
            (hml_array_reduce call arr f initial =
               Some (Inl (Exit ''Runtime error: reduce() of empty array with no initial value'' 1)))
              = (hml_type initial = HML_VAL_NULL) \<and>
            (hml_type initial \<noteq> HML_VAL_NULL \<longrightarrow>
               hml_array_reduce call arr f initial = Some (Inr (initial, a)))) \<and>
         (0 < hml_length a \<and> hml_type initial = HML_VAL_NULL \<and> leaves_array call f a \<longrightarrow>
            hml_array_reduce call arr f initial =
              Some (case fold_call call a f (hd (hml_live a)) (tl (hml_live a)) of
                      Inl e \<Rightarrow> Inl e
                    | Inr v \<Rightarrow> Inr (v, a))) \<and>
         (0 < hml_length a \<and> hml_type initial \<noteq> HML_VAL_NULL \<and> leaves_array call f a \<longrightarrow>
            hml_array_reduce call arr f initial =
              Some (case fold_call call a f initial (hml_live a) of
                      Inl e \<Rightarrow> Inl e
                    | Inr v \<Rightarrow> Inr (v, a))) \<and>
         (\<forall>acc xs. fold_call (\<lambda>b fn args. Inr (g (args ! 0) (args ! 1), b)) a f acc xs =
                    Inr (foldl g acc xs))"
proof -
  from assms(2) have n: "hml_length a \<le> length (hml_elements a)" by (simp add: hml_wf_def)
  have e: "hml_length a = 0 \<longrightarrow>
            (hml_array_reduce call arr f initial =
               Some (Inl (Exit ''Runtime error: reduce() of empty array with no initial value'' 1)))
              = (hml_type initial = HML_VAL_NULL) \<and>
            (hml_type initial \<noteq> HML_VAL_NULL \<longrightarrow>
               hml_array_reduce call arr f initial = Some (Inr (initial, a)))"
    using assms(1) by (simp add: hml_array_reduce_def hml_runtime_error_def)
  have f1: "0 < hml_length a \<and> hml_type initial = HML_VAL_NULL \<and> leaves_array call f a \<longrightarrow>
            hml_array_reduce call arr f initial =
              Some (case fold_call call a f (hd (hml_live a)) (tl (hml_live a)) of
                      Inl e \<Rightarrow> Inl e
                    | Inr v \<Rightarrow> Inr (v, a))"
  proof
    assume h: "0 < hml_length a \<and> hml_type initial = HML_VAL_NULL \<and> leaves_array call f a"
    then have one: "1 \<le> hml_length a" and la: "leaves_array call f a" by simp_all
    from h have pos: "0 < hml_length a" by simp
    have hd: "hml_elements a ! 0 = hd (hml_live a)"
      unfolding hml_live_def by (rule nth0_hd_take[OF pos n])
    have "hml_array_reduce call arr f initial = reduce_loop call f a 1 (hml_elements a ! 0)"
      using assms(1) h by (simp add: hml_array_reduce_def)
    also have "\<dots> = Some (case fold_call call a f (hml_elements a ! 0) (drop 1 (hml_live a)) of
                            Inl e \<Rightarrow> Inl e
                          | Inr v \<Rightarrow> Inr (v, a))"
      by (rule reduce_loop_fold[OF la n one])
    finally show "hml_array_reduce call arr f initial =
        Some (case fold_call call a f (hd (hml_live a)) (tl (hml_live a)) of
                Inl e \<Rightarrow> Inl e
              | Inr v \<Rightarrow> Inr (v, a))"
      by (simp add: hd drop_Suc)
  qed
  have f2: "0 < hml_length a \<and> hml_type initial \<noteq> HML_VAL_NULL \<and> leaves_array call f a \<longrightarrow>
            hml_array_reduce call arr f initial =
              Some (case fold_call call a f initial (hml_live a) of
                      Inl e \<Rightarrow> Inl e
                    | Inr v \<Rightarrow> Inr (v, a))"
  proof
    assume h: "0 < hml_length a \<and> hml_type initial \<noteq> HML_VAL_NULL \<and> leaves_array call f a"
    then have la: "leaves_array call f a" by simp
    have "hml_array_reduce call arr f initial = reduce_loop call f a 0 initial"
      using assms(1) h by (simp add: hml_array_reduce_def)
    also have "\<dots> = Some (case fold_call call a f initial (drop 0 (hml_live a)) of
                            Inl e \<Rightarrow> Inl e
                          | Inr v \<Rightarrow> Inr (v, a))"
      by (rule reduce_loop_fold[OF la n]) simp
    finally show "hml_array_reduce call arr f initial =
        Some (case fold_call call a f initial (hml_live a) of
                Inl e \<Rightarrow> Inl e
              | Inr v \<Rightarrow> Inr (v, a))"
      by simp
  qed
  from e f1 f2 fold_call_total[of g a f] show ?thesis by blast
qed

theorem hml_array_reduce_fold_witness:
  "hml_checked_array (hml_array_of [hml_val_i32 1, hml_val_i32 2, hml_val_i32 3, hml_val_i32 4] HML_VAL_NULL) =
     Some (HmlArray [hml_val_i32 1, hml_val_i32 2, hml_val_i32 3, hml_val_i32 4] 4 4 HML_VAL_NULL) \<and>
   hml_wf (HmlArray [hml_val_i32 1, hml_val_i32 2, hml_val_i32 3, hml_val_i32 4] 4 4 HML_VAL_NULL) \<and>
   leaves_array call_add fn_value
     (HmlArray [hml_val_i32 1, hml_val_i32 2, hml_val_i32 3, hml_val_i32 4] 4 4 HML_VAL_NULL) \<and>
   hml_array_reduce call_add
      (hml_array_of [hml_val_i32 1, hml_val_i32 2, hml_val_i32 3, hml_val_i32 4] HML_VAL_NULL)
      fn_value (hml_val_i32 0) =
     Some (Inr (hml_val_i32 10,
                HmlArray [hml_val_i32 1, hml_val_i32 2, hml_val_i32 3, hml_val_i32 4] 4 4 HML_VAL_NULL)) \<and>
   hml_array_reduce call_add
      (hml_array_of [hml_val_i32 1, hml_val_i32 2, hml_val_i32 3, hml_val_i32 4] HML_VAL_NULL)
      fn_value hml_val_null =
     Some (Inr (hml_val_i32 10,
                HmlArray [hml_val_i32 1, hml_val_i32 2, hml_val_i32 3, hml_val_i32 4] 4 4 HML_VAL_NULL)) \<and>
   hml_array_reduce call_add (hml_array_of [] HML_VAL_NULL) fn_value hml_val_null =
      Some (Inl (Exit ''Runtime error: reduce() of empty array with no initial value'' 1)) \<and>
   hml_array_reduce call_add (hml_array_of [] HML_VAL_NULL) fn_value (hml_val_i32 0) =
      Some (Inr (hml_val_i32 0, HmlArray [] 0 0 HML_VAL_NULL))"
proof -
  let ?xs = "[hml_val_i32 1, hml_val_i32 2, hml_val_i32 3, hml_val_i32 4]"
  let ?a = "HmlArray ?xs 4 4 HML_VAL_NULL"
  have c: "hml_checked_array (hml_array_of ?xs HML_VAL_NULL) = Some ?a"
    using hml_array_of_checked[of ?xs HML_VAL_NULL] by simp
  have w: "hml_wf ?a" by (simp add: hml_wf_def)
  have la: "leaves_array call_add fn_value ?a" by (simp add: leaves_array_def call_add_def)
  have c0: "hml_checked_array (hml_array_of [] HML_VAL_NULL) = Some (HmlArray [] 0 0 HML_VAL_NULL)"
    using hml_array_of_checked[of "[]" HML_VAL_NULL] by simp
  have w0: "hml_wf (HmlArray [] 0 0 HML_VAL_NULL)" by (simp add: hml_wf_def)
  have l: "hml_live ?a = ?xs" by (simp add: hml_live_def)
  have t: "hml_type (hml_val_i32 0) \<noteq> HML_VAL_NULL" "hml_type hml_val_null = HML_VAL_NULL"
    by (simp_all add: hml_val_i32_def hml_val_null_def)
  have f1: "fold_call call_add ?a fn_value (hml_val_i32 0) ?xs = Inr (hml_val_i32 10)"
    by (simp add: call_add_def add_i32_def hml_to_i32_of_i32_def hml_val_i32_def)
  have f2: "fold_call call_add ?a fn_value (hml_val_i32 1)
              [hml_val_i32 2, hml_val_i32 3, hml_val_i32 4] = Inr (hml_val_i32 10)"
    by (simp add: call_add_def add_i32_def hml_to_i32_of_i32_def hml_val_i32_def)
  from hml_array_reduce_fold[OF c w, of call_add fn_value "hml_val_i32 0"] t l f1 la
  have 1: "hml_array_reduce call_add (hml_array_of ?xs HML_VAL_NULL) fn_value (hml_val_i32 0) =
           Some (Inr (hml_val_i32 10, ?a))"
    by simp
  from hml_array_reduce_fold[OF c w, of call_add fn_value hml_val_null] t l f2 la
  have 2: "hml_array_reduce call_add (hml_array_of ?xs HML_VAL_NULL) fn_value hml_val_null =
           Some (Inr (hml_val_i32 10, ?a))"
    by simp
  from hml_array_reduce_fold[OF c0 w0, of call_add fn_value hml_val_null] t
  have 3: "hml_array_reduce call_add (hml_array_of [] HML_VAL_NULL) fn_value hml_val_null =
      Some (Inl (Exit ''Runtime error: reduce() of empty array with no initial value'' 1))"
    by simp
  from hml_array_reduce_fold[OF c0 w0, of call_add fn_value "hml_val_i32 0"] t
  have 4: "hml_array_reduce call_add (hml_array_of [] HML_VAL_NULL) fn_value (hml_val_i32 0) =
      Some (Inr (hml_val_i32 0, HmlArray [] 0 0 HML_VAL_NULL))"
    by simp
  from c w la 1 2 3 4 show ?thesis by blast
qed

text \<open>
  A callee that changes the array changes what the loop does, since each round reads
  the length and the element from the array as the last call left it. With a callee
  that pushes onto an untyped array at every call the index never reaches the length,
  and the loop does not end.
\<close>

lemma call_add_push_longer:
  assumes "hml_element_type a = HML_VAL_NULL"
  shows "\<exists>a'. call_add_push a f args = Inr (add_i32 (args ! 0) (args ! 1), a') \<and>
              hml_length a' = hml_length a + 1 \<and> hml_element_type a' = HML_VAL_NULL"
  using assms
  by (simp add: call_add_push_def hml_array_push_def hml_checked_array_def
      hml_grow_if_needed_def Let_def)

lemma reduce_push_returns:
  assumes "reduce_loop call f a i acc = Some y"
  shows "call = call_add_push \<longrightarrow> hml_element_type a = HML_VAL_NULL \<longrightarrow> hml_length a \<le> i"
proof (rule reduce_loop.raw_induct
    [where P = "\<lambda>call f a i acc y.
       call = call_add_push \<longrightarrow> hml_element_type a = HML_VAL_NULL \<longrightarrow> hml_length a \<le> i",
     OF _ assms])
  fix loop :: "(HmlArray \<Rightarrow> HmlValue \<Rightarrow> HmlValue list \<Rightarrow> error + HmlValue \<times> HmlArray) \<Rightarrow> HmlValue \<Rightarrow>
               HmlArray \<Rightarrow> nat \<Rightarrow> HmlValue \<Rightarrow> (error + HmlValue \<times> HmlArray) option"
    and call reducer a i acc r
  assume IH: "\<And>call reducer a i acc y. loop call reducer a i acc = Some y \<Longrightarrow>
          call = call_add_push \<longrightarrow> hml_element_type a = HML_VAL_NULL \<longrightarrow> hml_length a \<le> i"
    and step: "(if i < hml_length a
          then case call a reducer [acc, hml_elements a ! i] of
                 Inl e \<Rightarrow> Some (Inl e)
               | Inr (new_acc, a') \<Rightarrow> loop call reducer a' (i + 1) new_acc
          else Some (Inr (acc, a))) = Some r"
  show "call = call_add_push \<longrightarrow> hml_element_type a = HML_VAL_NULL \<longrightarrow> hml_length a \<le> i"
  proof (intro impI)
    assume c: "call = call_add_push" and t: "hml_element_type a = HML_VAL_NULL"
    show "hml_length a \<le> i"
    proof (rule ccontr)
      assume "\<not> hml_length a \<le> i"
      then have lt: "i < hml_length a" by simp
      from call_add_push_longer[OF t, of reducer "[acc, hml_elements a ! i]"] obtain a' where
        r: "call_add_push a reducer [acc, hml_elements a ! i] =
              Inr (add_i32 acc (hml_elements a ! i), a')" and
        l: "hml_length a' = hml_length a + 1" and t': "hml_element_type a' = HML_VAL_NULL"
        by auto
      from step lt c r
      have "loop call_add_push reducer a' (i + 1) (add_i32 acc (hml_elements a ! i)) = Some r"
        by simp
      from IH[OF this] t' l have "hml_length a + 1 \<le> i + 1" by simp
      with lt show False by simp
    qed
  qed
qed

lemma reduce_push_diverges:
  assumes "hml_element_type a = HML_VAL_NULL" and "i < hml_length a"
  shows "reduce_loop call_add_push f a i acc = None"
proof (cases "reduce_loop call_add_push f a i acc")
  case None
  then show ?thesis .
next
  case (Some y)
  from reduce_push_returns[OF Some] assms show ?thesis by simp
qed

lemma reduce_push_example:
  "hml_array_reduce call_add_push (hml_array_of [hml_val_i32 1] HML_VAL_NULL) fn_value
     (hml_val_i32 0) = None"
proof -
  have "reduce_loop call_add_push fn_value (HmlArray [hml_val_i32 1] 1 1 HML_VAL_NULL) 0
          (hml_val_i32 0) = None"
    by (rule reduce_push_diverges) simp_all
  then show ?thesis
    by (simp add: hml_array_reduce_def hml_array_of_def hml_checked_array_def hml_val_i32_def)
qed

text \<open>
  The claim as stated, refuted by callees that change the array being reduced. On
  \<open>[1, 2, 3, 4]\<close> with the callee that pops and adds, reduce returns 3 from
  \<open>initial = 0\<close> and 6 with no initial value, where the left fold of the addition
  over the elements is 10. On \<open>[1]\<close> with the callee that pushes and adds, reduce does
  not return.
\<close>

theorem hml_array_reduce_mutating_counterexample:
  "hml_array_reduce call_add_pop
      (hml_array_of [hml_val_i32 1, hml_val_i32 2, hml_val_i32 3, hml_val_i32 4] HML_VAL_NULL)
      fn_value (hml_val_i32 0) =
     Some (Inr (hml_val_i32 3,
                HmlArray [hml_val_i32 1, hml_val_i32 2, hml_val_i32 3, hml_val_i32 4] 2 4 HML_VAL_NULL)) \<and>
   foldl add_i32 (hml_val_i32 0) [hml_val_i32 1, hml_val_i32 2, hml_val_i32 3, hml_val_i32 4] =
     hml_val_i32 10 \<and>
   hml_val_i32 3 \<noteq> hml_val_i32 10 \<and>
   hml_array_reduce call_add_pop
      (hml_array_of [hml_val_i32 1, hml_val_i32 2, hml_val_i32 3, hml_val_i32 4] HML_VAL_NULL)
      fn_value hml_val_null =
     Some (Inr (hml_val_i32 6,
                HmlArray [hml_val_i32 1, hml_val_i32 2, hml_val_i32 3, hml_val_i32 4] 2 4 HML_VAL_NULL)) \<and>
   foldl add_i32 (hml_val_i32 1) [hml_val_i32 2, hml_val_i32 3, hml_val_i32 4] = hml_val_i32 10 \<and>
   hml_val_i32 6 \<noteq> hml_val_i32 10 \<and>
   hml_array_reduce call_add_push (hml_array_of [hml_val_i32 1] HML_VAL_NULL) fn_value
     (hml_val_i32 0) = None"
  using reduce_push_example
  by (simp add: hml_array_reduce_def hml_array_of_def hml_checked_array_def reduce_loop.simps
      call_add_pop_def hml_array_pop_def add_i32_def hml_to_i32_of_i32_def hml_val_i32_def
      hml_val_null_def fn_value_def)

end
